theory Spec2Isabelle
  imports Main
begin

section \<open>The scan manager of the JFrog VS Code extension\<close>

text \<open>
  This theory embeds \<^verbatim>\<open>src/main/scanLogic/scanManager.ts\<close>: the class
  \<^verbatim>\<open>ScanManager\<close> with \<^verbatim>\<open>scanWorkspace\<close>, \<^verbatim>\<open>runDependenciesScans\<close>,
  \<^verbatim>\<open>runSourceCodeScans\<close> and \<^verbatim>\<open>calculateNumberOfTasks\<close>.

  The TypeScript is asynchronous and effectful. The embedding makes that explicit:
  \<^item> everything the code mutates or emits lives in one record, \<open>session\<close>, that is
    passed through every function and returned updated; the calls to collaborators
    (progress, analytics, logging, usage report) are appended to its \<open>trace\<close>;
  \<^item> a synchronous \<^verbatim>\<open>throw\<close> is the left summand of \<open>error + 'a\<close>; the state is
    returned beside it, because an exception does not undo what was done before it;
  \<^item> an awaited promise has three fates (\<open>completion\<close>): it resolves, it rejects, or
    it never settles;
  \<^item> a promise is the index of its task in \<open>launched\<close>; the order in which the host
    settles the underlying scans is not fixed by the code, so it is an input: the
    \<open>schedule\<close> of the environment. A task that the schedule never names never settles.
\<close>

subsection \<open>Data\<close>

text \<open>
  Modelled from the spec: the enum \<^verbatim>\<open>ScanEventStatus\<close> is imported from
  \<^verbatim>\<open>jfrog-client-js\<close> and not in the sources; it has the four values of the spec's
  data model (Pending, Completed, Failed, Cancelled). The file itself only writes
  \<^verbatim>\<open>Cancelled\<close> and \<^verbatim>\<open>Failed\<close>.
\<close>

datatype ScanEventStatus = Pending | Completed | Failed | Cancelled

text \<open>
  The only distinction the code makes between raised values is
  \<^verbatim>\<open>error instanceof ScanCancellationError\<close>.
\<close>

datatype error = ScanCancellationError | OtherError string

type_synonym PackageType = string
type_synonym Uri = string
type_synonym issue = string

text \<open>A JavaScript \<^verbatim>\<open>Map\<close> iterates in insertion order: an association list.\<close>

type_synonym descriptors = "(PackageType \<times> Uri list) list"

text \<open>\<^verbatim>\<open>supportedScans.tokenValidation\<close> is a boolean that may be absent.\<close>

record SupportedScans =
  tokenValidation :: "bool option"

text \<open>
  \<^verbatim>\<open>BinaryEnvParams\<close>: the object literal \<^verbatim>\<open>{ msi: ... }\<close> has no
  \<^verbatim>\<open>tokenValidation\<close> property, and conversely; an absent property is \<open>None\<close>.
\<close>

record BinaryEnvParams =
  msi :: "string option"
  params_tokenValidation :: "bool option"

text \<open>
  A \<^verbatim>\<open>JasRunner\<close> as this file uses it: \<^verbatim>\<open>shouldRun()\<close> and \<^verbatim>\<open>scan(params)\<close>.
  The result of \<open>scan\<close> is the fate of the promise it returns: rejected with an error,
  or resolved after writing the given issues into the results.
\<close>

record JasRunner =
  runnerName :: string
  shouldRun :: bool
  scan :: "BinaryEnvParams option \<Rightarrow> error + issue list"

text \<open>
  A launched scan: what was called, with which arguments, and how the underlying
  promise will settle once the host gets to it.
\<close>

datatype task =
    DependencyScan PackageType "Uri list" "error + issue list"
  | RunnerScan string "BinaryEnvParams option" "error + issue list"

fun underlying :: "task \<Rightarrow> error + issue list" where
  "underlying (DependencyScan ptype descriptorsPaths out) = out"
| "underlying (RunnerScan name params out) = out"

text \<open>
  The calls that leave the file, in the order they are made. \<open>StatusWrite\<close> records
  every assignment to \<^verbatim>\<open>scanDetails.status\<close>. The second argument of
  \<open>LogErrorWithAnalytics\<close> is the optional third argument of the call (\<^verbatim>\<open>true\<close>
  in \<^verbatim>\<open>runDependenciesScans\<close>, omitted in \<^verbatim>\<open>runSourceCodeScans\<close>).
\<close>

datatype event =
    StartStep nat
  | StartScan
  | CheckCanceled
  | Launched task
  | LogErrorWithAnalytics error "bool option"
  | StatusWrite ScanEventStatus
  | EndScan
  | SendUsageReport

datatype 'a completion = Returned 'a | Raised error | Unsettled

text \<open>
  The session (\<^verbatim>\<open>WorkspaceScanDetails\<close>: \<open>status\<close>, \<open>multiScanId\<close>,
  \<open>supportedScans\<close>, \<open>scanResults\<close>) together with the run-time bookkeeping:
  how often \<^verbatim>\<open>checkCanceled\<close> was called, the promises created so far, which of
  them have settled (in settlement order), and the trace.
\<close>

record session =
  status :: ScanEventStatus
  multiScanId :: "string option"
  supportedScans :: SupportedScans
  scanResults :: "issue list"
  checks :: nat
  launched :: "task list"
  settled :: "nat list"
  trace :: "event list"

text \<open>
  The collaborators of the file are not in the sources (\<^verbatim>\<open>WorkspaceScanDetails\<close>,
  \<^verbatim>\<open>SupportedScans\<close>, \<^verbatim>\<open>JasRunnerFactory\<close>, \<^verbatim>\<open>DependencyUtils\<close>, \<^verbatim>\<open>LogUtils\<close>,
  \<^verbatim>\<open>UsageUtils\<close>, \<^verbatim>\<open>Configuration\<close>); what they answer is a parameter.
  \<open>checkCanceled k\<close> is what the \<open>k\<close>-th call of the cancellation check does
  (\<open>None\<close>: it returns; \<open>Some e\<close>: it throws \<open>e\<close>). \<open>getSupportedScans\<close> and
  \<open>startScan\<close> are the fates of the two awaited promises; \<open>startScan\<close> resolves
  with the multi-scan id the session holds afterwards.
  \<open>initialStatus\<close> is the status of a fresh \<^verbatim>\<open>WorkspaceScanDetails\<close>.
  The synchronous calls (\<^verbatim>\<open>createJasRunner\<close>, \<^verbatim>\<open>startStep\<close>,
  \<^verbatim>\<open>getReportAnalytics\<close>, \<^verbatim>\<open>shouldRun\<close>, \<^verbatim>\<open>logErrorWithAnalytics\<close>, \<^verbatim>\<open>endScan\<close>,
  \<^verbatim>\<open>sendUsageReport\<close>) are taken to return: the file does not guard against an
  exception of theirs, and the spec asks of the analytics and usage sink that its
  failures do not fail the scan.
\<close>

record env =
  getSupportedScans :: "SupportedScans completion"
  createJasRunner :: "SupportedScans \<Rightarrow> JasRunner list"
  getReportAnalytics :: bool
  startScan :: "string option completion"
  checkCanceled :: "nat \<Rightarrow> error option"
  scanPackageDependencies :: "PackageType \<Rightarrow> Uri list \<Rightarrow> error + issue list"
  initialStatus :: ScanEventStatus
  schedule :: "nat list"

subsection \<open>calculateNumberOfTasks\<close>

text \<open>
  \<^verbatim>\<open>[...workspaceDescriptors.values()].filter(d => d && d.length > 0)
     .reduce((count, values) => count + values.length, 0) + jasRunners.length\<close>
  The values are arrays, and every array is truthy, so the filter keeps the non-empty ones.
\<close>

definition calculateNumberOfTasks :: "JasRunner list \<Rightarrow> descriptors \<Rightarrow> nat" where
  "calculateNumberOfTasks jasRunners workspaceDescriptors =
     foldl (\<lambda>count values. count + length values) 0
       (filter (\<lambda>descriptorsPaths. length descriptorsPaths > 0) (map snd workspaceDescriptors))
     + length jasRunners"

text \<open>The count as the specification words it: only the runners that should run.\<close>

definition spec_numberOfTasks :: "JasRunner list \<Rightarrow> descriptors \<Rightarrow> nat" where
  "spec_numberOfTasks jasRunners workspaceDescriptors =
     sum_list (map length (filter (\<lambda>descriptorsPaths. descriptorsPaths \<noteq> [])
       (map snd workspaceDescriptors)))
     + length (filter shouldRun jasRunners)"

subsection \<open>Primitive steps\<close>

definition emit :: "event \<Rightarrow> session \<Rightarrow> session" where
  "emit ev s = s\<lparr>trace := trace s @ [ev]\<rparr>"

definition setStatus :: "ScanEventStatus \<Rightarrow> session \<Rightarrow> session" where
  "setStatus st s = emit (StatusWrite st) (s\<lparr>status := st\<rparr>)"

text \<open>One call of \<^verbatim>\<open>checkCanceled()\<close>.\<close>

definition callCheckCanceled :: "env \<Rightarrow> session \<Rightarrow> error option \<times> session" where
  "callCheckCanceled E s =
     (checkCanceled E (checks s), emit CheckCanceled (s\<lparr>checks := Suc (checks s)\<rparr>))"

text \<open>Calling an asynchronous scan creates a promise: the next index of \<open>launched\<close>.\<close>

definition launch :: "task \<Rightarrow> session \<Rightarrow> nat \<times> session" where
  "launch t s = (length (launched s), emit (Launched t) (s\<lparr>launched := launched s @ [t]\<rparr>))"

subsection \<open>runDependenciesScans\<close>

definition dependencyTask :: "env \<Rightarrow> PackageType \<times> Uri list \<Rightarrow> task" where
  "dependencyTask E d =
     DependencyScan (fst d) (snd d) (scanPackageDependencies E (fst d) (snd d))"

text \<open>
  The \<^verbatim>\<open>for (const [type, descriptorsPaths] of workspaceDescriptors)\<close> loop, with
  \<^verbatim>\<open>scansPromises\<close> as accumulator. A throwing \<^verbatim>\<open>checkCanceled()\<close> leaves the loop
  and the function; the promises created before it stay created.
\<close>

fun runDependenciesScans_loop ::
  "env \<Rightarrow> descriptors \<Rightarrow> nat list \<Rightarrow> session \<Rightarrow> (error + nat list) \<times> session" where
  "runDependenciesScans_loop E [] scansPromises s = (Inr scansPromises, s)"
| "runDependenciesScans_loop E (d # rest) scansPromises s =
     (case callCheckCanceled E s of
        (Some err, s1) \<Rightarrow> (Inl err, s1)
      | (None, s1) \<Rightarrow>
          (case launch (dependencyTask E d) s1 of
             (p, s2) \<Rightarrow> runDependenciesScans_loop E rest (scansPromises @ [p]) s2))"

definition runDependenciesScans ::
  "env \<Rightarrow> descriptors \<Rightarrow> session \<Rightarrow> (error + nat list) \<times> session" where
  "runDependenciesScans E workspaceDescriptors s =
     runDependenciesScans_loop E workspaceDescriptors [] s"

subsection \<open>runSourceCodeScans\<close>

text \<open>
  \<^verbatim>\<open>if (scanDetails.multiScanId)\<close> is JavaScript truthiness: the id is present and
  not the empty string. \<^verbatim>\<open>if (...supportedScans.tokenValidation)\<close>: present and true.
\<close>

definition truthy_string :: "string option \<Rightarrow> bool" where
  "truthy_string v = (case v of None \<Rightarrow> False | Some x \<Rightarrow> x \<noteq> [])"

definition truthy_bool :: "bool option \<Rightarrow> bool" where
  "truthy_bool v = (case v of None \<Rightarrow> False | Some b \<Rightarrow> b)"

definition sharedParams :: "session \<Rightarrow> BinaryEnvParams option" where
  "sharedParams s =
     (let params =
            (if truthy_string (multiScanId s)
             then Some \<lparr>msi = multiScanId s, params_tokenValidation = None\<rparr>
             else None)
      in if truthy_bool (tokenValidation (supportedScans s))
         then (case params of
                 Some p \<Rightarrow>
                   Some (p\<lparr>params_tokenValidation := tokenValidation (supportedScans s)\<rparr>)
               | None \<Rightarrow>
                   Some \<lparr>msi = None,
                         params_tokenValidation = tokenValidation (supportedScans s)\<rparr>)
         else params)"

definition runnerTask :: "BinaryEnvParams option \<Rightarrow> JasRunner \<Rightarrow> task" where
  "runnerTask params runner = RunnerScan (runnerName runner) params (scan runner params)"

fun runSourceCodeScans_loop ::
  "JasRunner list \<Rightarrow> BinaryEnvParams option \<Rightarrow> nat list \<Rightarrow> session \<Rightarrow> nat list \<times> session" where
  "runSourceCodeScans_loop [] params scansPromises s = (scansPromises, s)"
| "runSourceCodeScans_loop (runner # rest) params scansPromises s =
     (if shouldRun runner
      then (case launch (runnerTask params runner) s of
              (p, s1) \<Rightarrow> runSourceCodeScans_loop rest params (scansPromises @ [p]) s1)
      else runSourceCodeScans_loop rest params scansPromises s)"

definition runSourceCodeScans :: "JasRunner list \<Rightarrow> session \<Rightarrow> nat list \<times> session" where
  "runSourceCodeScans jasRunners s =
     runSourceCodeScans_loop jasRunners (sharedParams s) [] s"

subsection \<open>Settling a promise\<close>

text \<open>
  The two \<^verbatim>\<open>.catch(error => { LogUtils.logErrorWithAnalytics(...);
  scanDetails.status = ScanEventStatus.Failed; })\<close> handlers. A handler that returns
  makes the promise of \<^verbatim>\<open>.catch\<close> resolve; one that throws would make it reject.
\<close>

definition dependencyCatch :: "error \<Rightarrow> session \<Rightarrow> unit completion \<times> session" where
  "dependencyCatch err s =
     (Returned (), setStatus Failed (emit (LogErrorWithAnalytics err (Some True)) s))"

definition runnerCatch :: "error \<Rightarrow> session \<Rightarrow> unit completion \<times> session" where
  "runnerCatch err s =
     (Returned (), setStatus Failed (emit (LogErrorWithAnalytics err None) s))"

definition catchHandler :: "task \<Rightarrow> error \<Rightarrow> session \<Rightarrow> unit completion \<times> session" where
  "catchHandler t =
     (case t of DependencyScan ptype descriptorsPaths out \<Rightarrow> dependencyCatch
      | RunnerScan name params out \<Rightarrow> runnerCatch)"

text \<open>
  Modelled from the spec: \<^verbatim>\<open>DependencyUtils.scanPackageDependencies\<close> and
  \<^verbatim>\<open>JasRunner.scan\<close> are not in the sources. According to the spec a scan writes
  its results into the session's accumulator; here a scan that resolves has added its
  issues, and one that rejects has added none.
\<close>

definition writeResults :: "issue list \<Rightarrow> session \<Rightarrow> session" where
  "writeResults issues s = s\<lparr>scanResults := scanResults s @ issues\<rparr>"

text \<open>
  \<open>settle p s\<close>: the host settles the scan behind promise \<open>p\<close>; for a scan that
  rejects, the catch handler runs. The value is how the promise stored in
  \<^verbatim>\<open>scansPromises\<close> (the one returned by \<^verbatim>\<open>.catch\<close>) settles.
\<close>

definition settle :: "nat \<Rightarrow> session \<Rightarrow> unit completion \<times> session" where
  "settle p s =
     (let t = launched s ! p; s1 = s\<lparr>settled := settled s @ [p]\<rparr>
      in case underlying t of
           Inr issues \<Rightarrow> (Returned (), writeResults issues s1)
         | Inl err \<Rightarrow> catchHandler t err s1)"

text \<open>Only a promise that exists and is still pending can settle.\<close>

definition pending :: "nat \<Rightarrow> session \<Rightarrow> bool" where
  "pending p s = (p < length (launched s) \<and> p \<notin> set (settled s))"

text \<open>
  \<^verbatim>\<open>await Promise.all(promises)\<close>: resolves once every listed promise has
  resolved, rejects as soon as one of them rejects, and otherwise waits while the host
  settles scans in the order of the schedule.
\<close>

fun promiseAll :: "nat list \<Rightarrow> nat list \<Rightarrow> session \<Rightarrow> unit completion \<times> session" where
  "promiseAll promises [] s =
     (if set promises \<subseteq> set (settled s) then (Returned (), s) else (Unsettled, s))"
| "promiseAll promises (p # sched) s =
     (if set promises \<subseteq> set (settled s) then (Returned (), s)
      else if pending p s
      then (case settle p s of
              (Raised err, s1) \<Rightarrow>
                if p \<in> set promises then (Raised err, s1) else promiseAll promises sched s1
            | (r, s1) \<Rightarrow> promiseAll promises sched s1)
      else promiseAll promises sched s)"

subsection \<open>scanWorkspace\<close>

definition awaitStartScan :: "env \<Rightarrow> session \<Rightarrow> unit completion \<times> session" where
  "awaitStartScan E s =
     (case startScan E of
        Returned m \<Rightarrow> (Returned (), emit StartScan (s\<lparr>multiScanId := m\<rparr>))
      | Raised err \<Rightarrow> (Raised err, emit StartScan s)
      | Unsettled \<Rightarrow> (Unsettled, emit StartScan s))"

text \<open>
  The body of the \<^verbatim>\<open>try\<close> block. The two spread arrays are built one after the
  other before \<^verbatim>\<open>Promise.all\<close> is called, so an exception of
  \<^verbatim>\<open>runDependenciesScans\<close> means that neither \<^verbatim>\<open>runSourceCodeScans\<close> nor
  \<^verbatim>\<open>Promise.all\<close> runs.
\<close>

definition scanWorkspace_try ::
  "env \<Rightarrow> descriptors \<Rightarrow> JasRunner list \<Rightarrow> session \<Rightarrow> unit completion \<times> session" where
  "scanWorkspace_try E workspaceDescriptors jasRunners s =
     (case (if getReportAnalytics E then awaitStartScan E s else (Returned (), s)) of
        (Raised err, s1) \<Rightarrow> (Raised err, s1)
      | (Unsettled, s1) \<Rightarrow> (Unsettled, s1)
      | (Returned u, s1) \<Rightarrow>
          (case callCheckCanceled E s1 of
             (Some err, s2) \<Rightarrow> (Raised err, s2)
           | (None, s2) \<Rightarrow>
               (case runDependenciesScans E workspaceDescriptors s2 of
                  (Inl err, s3) \<Rightarrow> (Raised err, s3)
                | (Inr deps, s3) \<Rightarrow>
                    (case runSourceCodeScans jasRunners s3 of
                       (srcs, s4) \<Rightarrow> promiseAll (deps @ srcs) (schedule E) s4))))"

text \<open>The \<^verbatim>\<open>catch (error)\<close> block, up to its \<^verbatim>\<open>throw error\<close>.\<close>

definition scanWorkspace_catch :: "error \<Rightarrow> session \<Rightarrow> session" where
  "scanWorkspace_catch err s =
     (if err = ScanCancellationError then setStatus Cancelled s else setStatus Failed s)"

text \<open>The \<^verbatim>\<open>finally\<close> block.\<close>

definition scanWorkspace_finally :: "session \<Rightarrow> session" where
  "scanWorkspace_finally s = emit SendUsageReport (emit EndScan s)"

text \<open>
  The state in which the call starts. The fields of the session are those of a fresh
  \<^verbatim>\<open>WorkspaceScanDetails\<close>; they mean nothing before the constructor has run.
\<close>

definition newSession :: "env \<Rightarrow> session" where
  "newSession E =
     \<lparr>status = initialStatus E, multiScanId = None,
      supportedScans = \<lparr>tokenValidation = None\<rparr>, scanResults = [],
      checks = 0, launched = [], settled = [], trace = []\<rparr>"

text \<open>
  The statements of \<^verbatim>\<open>scanWorkspace\<close> between the awaited
  \<^verbatim>\<open>getSupportedScans()\<close> and the \<^verbatim>\<open>try\<close>: the constructor,
  \<^verbatim>\<open>createJasRunner()\<close> and \<^verbatim>\<open>progressManager.startStep\<close>. The label of the
  progress step is left out of \<open>StartStep\<close>.
\<close>

definition scanWorkspace_setup :: "env \<Rightarrow> descriptors \<Rightarrow> SupportedScans \<Rightarrow> session" where
  "scanWorkspace_setup E workspaceDescriptors supported =
     emit (StartStep (calculateNumberOfTasks (createJasRunner E supported) workspaceDescriptors))
       ((newSession E)\<lparr>supportedScans := supported\<rparr>)"

text \<open>
  \<^verbatim>\<open>scanWorkspace\<close>. What precedes the \<^verbatim>\<open>try\<close> is not covered by its
  \<^verbatim>\<open>catch\<close> and \<^verbatim>\<open>finally\<close>: a rejection of \<^verbatim>\<open>getSupportedScans()\<close>
  rejects the call at once, and while that promise is pending so is the call.
\<close>

definition scanWorkspace :: "env \<Rightarrow> descriptors \<Rightarrow> unit completion \<times> session" where
  "scanWorkspace E workspaceDescriptors =
     (case getSupportedScans E of
        Raised err \<Rightarrow> (Raised err, newSession E)
      | Unsettled \<Rightarrow> (Unsettled, newSession E)
      | Returned supported \<Rightarrow>
          (case scanWorkspace_try E workspaceDescriptors (createJasRunner E supported)
                  (scanWorkspace_setup E workspaceDescriptors supported) of
             (Returned u, s2) \<Rightarrow> (Returned (), scanWorkspace_finally s2)
           | (Raised err, s2) \<Rightarrow>
               (Raised err, scanWorkspace_finally (scanWorkspace_catch err s2))
           | (Unsettled, s2) \<Rightarrow> (Unsettled, s2)))"

subsection \<open>Observations used in the statements\<close>

text \<open>The promises \<open>n, n + 1, ..., n + m - 1\<close>.\<close>

definition promisesFrom :: "nat \<Rightarrow> nat \<Rightarrow> nat list" where
  "promisesFrom n m = [n ..< n + m]"

text \<open>
  How many of the \<open>m\<close> calls of \<^verbatim>\<open>checkCanceled\<close> numbered \<open>c, c + 1, ...\<close>
  return before the first one throws.
\<close>

definition checksPassed :: "env \<Rightarrow> nat \<Rightarrow> nat \<Rightarrow> nat" where
  "checksPassed E c m =
     length (takeWhile (\<lambda>k. checkCanceled E k = None) (promisesFrom c m))"

text \<open>The third argument with which the catch handler of a task logs.\<close>

fun taskFlag :: "task \<Rightarrow> bool option" where
  "taskFlag (DependencyScan ptype descriptorsPaths out) = Some True"
| "taskFlag (RunnerScan name params out) = None"

text \<open>
  What a settled task has left behind: a failed one its log entry and the status
  \<open>Failed\<close>, a successful one its issues in the results.
\<close>

definition recorded :: "task \<Rightarrow> session \<Rightarrow> bool" where
  "recorded t s =
     (case underlying t of
        Inl err \<Rightarrow> LogErrorWithAnalytics err (taskFlag t) \<in> set (trace s) \<and> status s = Failed
      | Inr issues \<Rightarrow> set issues \<subseteq> set (scanResults s))"

text \<open>The events of the \<^verbatim>\<open>try\<close> block; the only status it writes is \<open>Failed\<close>.\<close>

fun tryEvent :: "event \<Rightarrow> bool" where
  "tryEvent StartScan = True"
| "tryEvent CheckCanceled = True"
| "tryEvent (Launched t) = True"
| "tryEvent (LogErrorWithAnalytics err flag) = True"
| "tryEvent (StatusWrite st) = (st = Failed)"
| "tryEvent ev = False"

text \<open>The status after a sequence of events, starting from \<open>st\<close>.\<close>

fun replayStatus :: "ScanEventStatus \<Rightarrow> event list \<Rightarrow> ScanEventStatus" where
  "replayStatus st [] = st"
| "replayStatus st (StatusWrite st' # evs) = replayStatus st' evs"
| "replayStatus st (ev # evs) = replayStatus st evs"

text \<open>The properties of the parameter bag; \<^verbatim>\<open>undefined\<close> has none.\<close>

definition bagMsi :: "BinaryEnvParams option \<Rightarrow> string option" where
  "bagMsi params = (case params of None \<Rightarrow> None | Some p \<Rightarrow> msi p)"

definition bagTokenValidation :: "BinaryEnvParams option \<Rightarrow> bool option" where
  "bagTokenValidation params =
     (case params of None \<Rightarrow> None | Some p \<Rightarrow> params_tokenValidation p)"

text \<open>
  \<open>discovered E\<close>: the awaited \<^verbatim>\<open>getSupportedScans()\<close> has resolved, so that the
  \<^verbatim>\<open>try\<close> block is entered. \<open>startScanPassed E\<close>: \<^verbatim>\<open>startScan()\<close> is not
  called, or it has resolved, so that the cancellation check before the fan-out is
  reached.
\<close>

definition discovered :: "env \<Rightarrow> bool" where
  "discovered E =
     (case getSupportedScans E of Returned supported \<Rightarrow> True
      | Raised err \<Rightarrow> False | Unsettled \<Rightarrow> False)"

definition startScanPassed :: "env \<Rightarrow> bool" where
  "startScanPassed E =
     (if getReportAnalytics E
      then (case startScan E of Returned m \<Rightarrow> True
            | Raised err \<Rightarrow> False | Unsettled \<Rightarrow> False)
      else True)"

text \<open>
  The state after the optional \<^verbatim>\<open>await scanDetails.startScan()\<close> has resolved, and
  the state in which \<^verbatim>\<open>Promise.all\<close> is called when nothing was thrown before.
\<close>

definition afterStartScan :: "env \<Rightarrow> session \<Rightarrow> session" where
  "afterStartScan E s = (if getReportAnalytics E then snd (awaitStartScan E s) else s)"

definition fanOut :: "env \<Rightarrow> descriptors \<Rightarrow> JasRunner list \<Rightarrow> session \<Rightarrow> session" where
  "fanOut E ds rs s =
     snd (runSourceCodeScans rs
       (snd (runDependenciesScans E ds (snd (callCheckCanceled E (afterStartScan E s))))))"

text \<open>
  \<open>tryStep s s'\<close>: from \<open>s\<close> to \<open>s'\<close> the trace grew by events of the
  \<^verbatim>\<open>try\<close> block only, and the status is what those events wrote.
\<close>

definition tryStep :: "session \<Rightarrow> session \<Rightarrow> bool" where
  "tryStep s s' =
     (\<exists>evs. trace s' = trace s @ evs \<and> list_all tryEvent evs
        \<and> status s' = replayStatus (status s) evs)"

text \<open>Every promise settled once, and every settled task has left its record.\<close>

definition allRecorded :: "session \<Rightarrow> bool" where
  "allRecorded s =
     (distinct (settled s)
      \<and> list_all (\<lambda>p. p < length (launched s) \<and> recorded (launched s ! p) s) (settled s))"

subsection \<open>Example inputs\<close>

text \<open>
  The scenario of the specification: \<^verbatim>\<open>{npm: [a.json], pip: [b.txt, c.txt]}\<close>,
  three runners of which two apply; here the \<open>pip\<close> scan and the \<open>iac\<close> runner fail.
\<close>

definition sastRunner :: JasRunner where
  "sastRunner = \<lparr>runnerName = ''sast'', shouldRun = True, scan = (\<lambda>params. Inr [''sast-issue''])\<rparr>"

definition iacRunner :: JasRunner where
  "iacRunner =
     \<lparr>runnerName = ''iac'', shouldRun = True, scan = (\<lambda>params. Inl (OtherError ''iac crashed''))\<rparr>"

definition secretsRunner :: JasRunner where
  "secretsRunner = \<lparr>runnerName = ''secrets'', shouldRun = False, scan = (\<lambda>params. Inr [])\<rparr>"

definition demoDescriptors :: descriptors where
  "demoDescriptors = [(''npm'', [''a.json'']), (''pip'', [''b.txt'', ''c.txt''])]"

definition demoEnv :: env where
  "demoEnv =
     \<lparr>getSupportedScans = Returned \<lparr>tokenValidation = Some True\<rparr>,
      createJasRunner = (\<lambda>supported. [sastRunner, secretsRunner, iacRunner]),
      getReportAnalytics = True,
      startScan = Returned (Some ''msi-1''),
      checkCanceled = (\<lambda>k. None),
      scanPackageDependencies =
        (\<lambda>ptype descriptorsPaths.
           if ptype = ''pip'' then Inl (OtherError ''pip failed'')
           else Inr (map (\<lambda>path. ''issue in '' @ path) descriptorsPaths)),
      initialStatus = Completed,
      schedule = [3, 0, 2, 1]\<rparr>"

text \<open>
  The state of the scenario when \<^verbatim>\<open>Promise.all\<close> is called: four promises, none
  settled yet.
\<close>

definition demoFanOut :: session where
  "demoFanOut =
     fanOut demoEnv demoDescriptors (createJasRunner demoEnv \<lparr>tokenValidation = Some True\<rparr>)
       (scanWorkspace_setup demoEnv demoDescriptors \<lparr>tokenValidation = Some True\<rparr>)"

text \<open>Cancellation observed by the check before the fan-out.\<close>

definition cancelledEnv :: env where
  "cancelledEnv =
     demoEnv\<lparr>checkCanceled := (\<lambda>k. if k = 0 then Some ScanCancellationError else None)\<rparr>"

text \<open>Cancellation observed by the check before the second dependency scan.\<close>

definition cancelledMidwayEnv :: env where
  "cancelledMidwayEnv =
     demoEnv\<lparr>checkCanceled := (\<lambda>k. if k = 2 then Some ScanCancellationError else None)\<rparr>"

text \<open>The capability discovery fails.\<close>

definition noDiscoveryEnv :: env where
  "noDiscoveryEnv = demoEnv\<lparr>getSupportedScans := Raised (OtherError ''no connection'')\<rparr>"

definition cancelledDiscoveryEnv :: env where
  "cancelledDiscoveryEnv = demoEnv\<lparr>getSupportedScans := Raised ScanCancellationError\<rparr>"


section \<open>The task count\<close>

lemma foldl_count_lengths:
  "foldl (\<lambda>count values. count + length values) n xss = n + sum_list (map length xss)"
  by (induction xss arbitrary: n) auto

lemma length_filter_shouldRun:
  "length (filter shouldRun rs) + length (filter (\<lambda>r. \<not> shouldRun r) rs) = length rs"
  by (induction rs) auto

text \<open>
  Claim C1, as stated, fails: \<^verbatim>\<open>calculateNumberOfTasks\<close> never calls
  \<^verbatim>\<open>shouldRun\<close>. With the two manifest lists of the scenario and three runners of
  which one does not apply, the code counts 6 units, the specification's formula 5.
\<close>

theorem calculateNumberOfTasks_counterexample:
  "calculateNumberOfTasks [sastRunner, secretsRunner, iacRunner] demoDescriptors = 6
   \<and> spec_numberOfTasks [sastRunner, secretsRunner, iacRunner] demoDescriptors = 5"
  by (simp add: calculateNumberOfTasks_def spec_numberOfTasks_def demoDescriptors_def
      sastRunner_def secretsRunner_def iacRunner_def)

text \<open>
  Claim C1, amended: for every descriptor mapping and every runner list, the count is
  the sum of the manifest counts of the non-empty manifest lists plus the number of
  all runners in the list, whether \<^verbatim>\<open>shouldRun\<close> holds for them or not; it exceeds
  the specification's formula by the number of runners that should not run.
\<close>

theorem calculateNumberOfTasks_counts_every_runner:
  "calculateNumberOfTasks jasRunners workspaceDescriptors =
     sum_list (map length (filter (\<lambda>descriptorsPaths. descriptorsPaths \<noteq> [])
       (map snd workspaceDescriptors))) + length jasRunners
   \<and> calculateNumberOfTasks jasRunners workspaceDescriptors =
     spec_numberOfTasks jasRunners workspaceDescriptors
       + length (filter (\<lambda>runner. \<not> shouldRun runner) jasRunners)"
  using length_filter_shouldRun [of jasRunners]
  by (simp add: calculateNumberOfTasks_def spec_numberOfTasks_def foldl_count_lengths)

section \<open>Lemmas about the steps\<close>

subsection \<open>Index ranges and cancellation checks\<close>

lemma promisesFrom_0 [simp]: "promisesFrom n 0 = []"
  by (simp add: promisesFrom_def)

lemma promisesFrom_Suc [simp]: "promisesFrom n (Suc m) = n # promisesFrom (Suc n) m"
proof -
  have "[n ..< n + Suc m] = n # [Suc n ..< n + Suc m]"
    by (rule upt_conv_Cons) simp
  then show ?thesis by (simp add: promisesFrom_def del: upt_Suc)
qed

lemma set_promisesFrom: "set (promisesFrom n m) = {n ..< n + m}"
  by (simp add: promisesFrom_def)

lemma promisesFrom_append:
  "promisesFrom n a @ promisesFrom (n + a) b = promisesFrom n (a + b)"
  using upt_add_eq_append [of n "n + a" b] by (simp add: promisesFrom_def add.assoc)

lemma checksPassed_0 [simp]: "checksPassed E c 0 = 0"
  by (simp add: checksPassed_def)

lemma checksPassed_Suc:
  "checksPassed E c (Suc m) =
     (if checkCanceled E c = None then Suc (checksPassed E (Suc c) m) else 0)"
  by (simp add: checksPassed_def)

lemma checksPassed_le: "checksPassed E c m \<le> m"
proof -
  have "checksPassed E c m \<le> length (promisesFrom c m)"
    unfolding checksPassed_def by (rule length_takeWhile_le)
  then show ?thesis by (simp add: promisesFrom_def)
qed

lemma checksPassed_all:
  "(\<And>k. k < m \<Longrightarrow> checkCanceled E (c + k) = None) \<Longrightarrow> checksPassed E c m = m"
proof (induction m arbitrary: c)
  case 0
  show ?case by simp
next
  case (Suc m)
  have "checkCanceled E c = None" using Suc.prems [of 0] by simp
  moreover have "checksPassed E (Suc c) m = m"
  proof (rule Suc.IH)
    fix k assume "k < m"
    then show "checkCanceled E (Suc c + k) = None" using Suc.prems [of "Suc k"] by simp
  qed
  ultimately show ?case by (simp add: checksPassed_Suc)
qed

lemma checksPassed_stop:
  "checksPassed E c m < m \<Longrightarrow> \<exists>err. checkCanceled E (c + checksPassed E c m) = Some err"
proof (induction m arbitrary: c)
  case 0
  then show ?case by simp
next
  case (Suc m)
  show ?case
  proof (cases "checkCanceled E c")
    case None
    with Suc.prems have "checksPassed E (Suc c) m < m" by (simp add: checksPassed_Suc)
    from Suc.IH [OF this] None show ?thesis by (simp add: checksPassed_Suc)
  next
    case (Some err)
    then show ?thesis by (simp add: checksPassed_Suc)
  qed
qed

lemma checksPassed_before:
  "k < checksPassed E c m \<Longrightarrow> checkCanceled E (c + k) = None"
proof (induction m arbitrary: c k)
  case 0
  then show ?case by simp
next
  case (Suc m)
  show ?case
  proof (cases "checkCanceled E c")
    case None
    show ?thesis
    proof (cases k)
      case 0
      with None show ?thesis by simp
    next
      case (Suc j)
      with Suc.prems None have "j < checksPassed E (Suc c) m" by (simp add: checksPassed_Suc)
      from Suc.IH [OF this] Suc show ?thesis by simp
    qed
  next
    case (Some err)
    with Suc.prems show ?thesis by (simp add: checksPassed_Suc)
  qed
qed

subsection \<open>The two launch loops\<close>

lemma runDependenciesScans_loop_eq:
  "runDependenciesScans_loop E ds acc s =
     (let n = checksPassed E (checks s) (length ds) in
      (if n < length ds then Inl (the (checkCanceled E (checks s + n)))
       else Inr (acc @ promisesFrom (length (launched s)) n),
       s\<lparr>checks := checks s + (if n < length ds then Suc n else n),
         launched := launched s @ map (dependencyTask E) (take n ds),
         trace := trace s
           @ concat (map (\<lambda>d. [CheckCanceled, Launched (dependencyTask E d)]) (take n ds))
           @ (if n < length ds then [CheckCanceled] else [])\<rparr>))"
proof (induction ds arbitrary: acc s)
  case Nil
  show ?case by simp
next
  case (Cons d rest)
  show ?case
  proof (cases "checkCanceled E (checks s)")
    case None
    then show ?thesis
      using checksPassed_le [of E "Suc (checks s)" "length rest"]
      by (simp add: Cons.IH callCheckCanceled_def launch_def emit_def checksPassed_Suc Let_def)
  next
    case (Some err)
    then show ?thesis
      by (simp add: callCheckCanceled_def emit_def checksPassed_Suc Let_def)
  qed
qed

lemma runSourceCodeScans_loop_eq:
  "runSourceCodeScans_loop rs params acc s =
     (acc @ promisesFrom (length (launched s)) (length (filter shouldRun rs)),
      s\<lparr>launched := launched s @ map (runnerTask params) (filter shouldRun rs),
        trace := trace s @ map (\<lambda>r. Launched (runnerTask params r)) (filter shouldRun rs)\<rparr>)"
proof (induction rs arbitrary: acc s)
  case Nil
  show ?case by simp
next
  case (Cons r rest)
  show ?case
    by (simp add: Cons.IH launch_def emit_def)
qed

subsection \<open>Replaying the status\<close>

lemma replayStatus_append:
  "replayStatus st (xs @ ys) = replayStatus (replayStatus st xs) ys"
  by (induction st xs rule: replayStatus.induct) auto

lemma replayStatus_quiet:
  "(\<And>st'. StatusWrite st' \<notin> set evs) \<Longrightarrow> replayStatus st evs = st"
  by (induction st evs rule: replayStatus.induct) auto

lemma tryStepI:
  "trace s' = trace s @ evs \<Longrightarrow> list_all tryEvent evs \<Longrightarrow>
   status s' = replayStatus (status s) evs \<Longrightarrow> tryStep s s'"
  unfolding tryStep_def by blast

lemma tryStep_refl: "tryStep s s"
  by (rule tryStepI [where evs = "[]"]) simp_all

lemma tryStep_trans:
  assumes "tryStep s s1" and "tryStep s1 s2"
  shows "tryStep s s2"
proof -
  from assms(1) obtain xs where xs: "trace s1 = trace s @ xs" "list_all tryEvent xs"
    "status s1 = replayStatus (status s) xs"
    unfolding tryStep_def by blast
  from assms(2) obtain ys where ys: "trace s2 = trace s1 @ ys" "list_all tryEvent ys"
    "status s2 = replayStatus (status s1) ys"
    unfolding tryStep_def by blast
  show ?thesis
    by (rule tryStepI [where evs = "xs @ ys"]) (simp_all add: xs ys replayStatus_append)
qed

subsection \<open>Settling\<close>

lemma settle_eq:
  "settle p s =
     (Returned (),
      (case underlying (launched s ! p) of
         Inl err \<Rightarrow>
           s\<lparr>status := Failed, settled := settled s @ [p],
             trace := trace s
               @ [LogErrorWithAnalytics err (taskFlag (launched s ! p)), StatusWrite Failed]\<rparr>
       | Inr issues \<Rightarrow>
           s\<lparr>scanResults := scanResults s @ issues, settled := settled s @ [p]\<rparr>))"
  by (cases "launched s ! p")
    (simp_all add: settle_def Let_def catchHandler_def dependencyCatch_def runnerCatch_def
      setStatus_def emit_def writeResults_def split: sum.splits)

lemma settle_Returned: "fst (settle p s) = Returned ()"
  by (simp add: settle_eq)

lemma settle_frame:
  "launched (snd (settle p s)) = launched s"
  "checks (snd (settle p s)) = checks s"
  "multiScanId (snd (settle p s)) = multiScanId s"
  "supportedScans (snd (settle p s)) = supportedScans s"
  "settled (snd (settle p s)) = settled s @ [p]"
  by (simp_all add: settle_eq split: sum.splits)

lemma tryStep_settle: "tryStep s (snd (settle p s))"
proof (cases "underlying (launched s ! p)")
  case (Inl err)
  show ?thesis
    by (rule tryStepI [where evs = "[LogErrorWithAnalytics err (taskFlag (launched s ! p)),
          StatusWrite Failed]"]) (simp_all add: settle_eq Inl)
next
  case (Inr issues)
  show ?thesis
    by (rule tryStepI [where evs = "[]"]) (simp_all add: settle_eq Inr)
qed

lemma recorded_settle_other:
  "recorded t s \<Longrightarrow> recorded t (snd (settle p s))"
  by (auto simp: recorded_def settle_eq split: sum.splits)

lemma recorded_settle_self:
  "recorded (launched s ! p) (snd (settle p s))"
  by (auto simp: recorded_def settle_eq split: sum.splits)

lemma allRecorded_settle:
  assumes "allRecorded s" and "pending p s"
  shows "allRecorded (snd (settle p s))"
proof -
  from assms have d: "distinct (settled s @ [p])"
    by (simp add: allRecorded_def pending_def)
  have old: "list_all (\<lambda>q. q < length (launched s) \<and> recorded (launched s ! q) (snd (settle p s)))
      (settled s)"
    using assms(1) by (auto simp: allRecorded_def list_all_iff recorded_settle_other)
  show ?thesis
    using d old assms(2) recorded_settle_self [of s p]
    by (simp add: allRecorded_def settle_frame pending_def)
qed

subsection \<open>Promise.all\<close>

lemma promiseAll_not_Raised: "fst (promiseAll promises sched s) \<noteq> Raised err"
proof (induction sched arbitrary: s)
  case Nil
  show ?case by simp
next
  case (Cons p sched)
  obtain s1 where s1: "settle p s = (Returned (), s1)"
    using settle_Returned [of p s] by (cases "settle p s") simp
  show ?case using Cons.IH by (simp add: s1)
qed

lemma promiseAll_frame:
  "launched (snd (promiseAll promises sched s)) = launched s
   \<and> checks (snd (promiseAll promises sched s)) = checks s
   \<and> multiScanId (snd (promiseAll promises sched s)) = multiScanId s
   \<and> supportedScans (snd (promiseAll promises sched s)) = supportedScans s"
proof (induction sched arbitrary: s)
  case Nil
  show ?case by simp
next
  case (Cons p sched)
  obtain s1 where s1: "settle p s = (Returned (), s1)"
    using settle_Returned [of p s] by (cases "settle p s") simp
  have "s1 = snd (settle p s)" by (simp add: s1)
  then have "launched s1 = launched s" "checks s1 = checks s" "multiScanId s1 = multiScanId s"
    "supportedScans s1 = supportedScans s"
    by (simp_all add: settle_frame)
  then show ?case using Cons.IH [of s1] Cons.IH [of s] by (simp add: s1)
qed

lemma tryStep_promiseAll: "tryStep s (snd (promiseAll promises sched s))"
proof (induction sched arbitrary: s)
  case Nil
  show ?case by (simp add: tryStep_refl)
next
  case (Cons p sched)
  obtain s1 where s1: "settle p s = (Returned (), s1)"
    using settle_Returned [of p s] by (cases "settle p s") simp
  have "tryStep s s1" using tryStep_settle [of s p] by (simp add: s1)
  then have "tryStep s (snd (promiseAll promises sched s1))"
    using Cons.IH [of s1] by (rule tryStep_trans)
  then show ?case using Cons.IH [of s] by (simp add: s1 tryStep_refl)
qed

lemma promiseAll_Returned_settled:
  "fst (promiseAll promises sched s) = Returned () \<Longrightarrow>
   set promises \<subseteq> set (settled (snd (promiseAll promises sched s)))"
proof (induction sched arbitrary: s)
  case Nil
  then show ?case by (simp split: if_splits)
next
  case (Cons p sched)
  obtain s1 where s1: "settle p s = (Returned (), s1)"
    using settle_Returned [of p s] by (cases "settle p s") simp
  show ?case using Cons.prems Cons.IH [of s1] Cons.IH [of s]
    by (simp add: s1 split: if_splits)
qed

lemma promiseAll_Unsettled_pending:
  "fst (promiseAll promises sched s) = Unsettled \<Longrightarrow>
   \<not> set promises \<subseteq> set (settled (snd (promiseAll promises sched s)))"
proof (induction sched arbitrary: s)
  case Nil
  then show ?case by (simp split: if_splits)
next
  case (Cons p sched)
  obtain s1 where s1: "settle p s = (Returned (), s1)"
    using settle_Returned [of p s] by (cases "settle p s") simp
  show ?case using Cons.prems Cons.IH [of s1] Cons.IH [of s]
    by (simp add: s1 split: if_splits)
qed

lemma allRecorded_promiseAll:
  "allRecorded s \<Longrightarrow> allRecorded (snd (promiseAll promises sched s))"
proof (induction sched arbitrary: s)
  case Nil
  then show ?case by simp
next
  case (Cons p sched)
  obtain s1 where s1: "settle p s = (Returned (), s1)"
    using settle_Returned [of p s] by (cases "settle p s") simp
  show ?case
  proof (cases "pending p s")
    case True
    with Cons.prems have "allRecorded s1" using allRecorded_settle [of s p] by (simp add: s1)
    then show ?thesis using Cons.prems Cons.IH [of s1] Cons.IH [of s] by (simp add: s1)
  next
    case False
    then show ?thesis using Cons.prems Cons.IH [of s] by simp
  qed
qed

text \<open>A schedule that names every awaited promise lets the joint wait end.\<close>

lemma promiseAll_settles:
  assumes "set promises \<subseteq> set sched \<union> set (settled s)"
    and "\<And>p. p \<in> set promises \<Longrightarrow> p < length (launched s)"
  shows "fst (promiseAll promises sched s) = Returned ()"
  using assms
proof (induction sched arbitrary: s)
  case Nil
  then show ?case by simp
next
  case (Cons p sched)
  obtain s1 where s1: "settle p s = (Returned (), s1)"
    using settle_Returned [of p s] by (cases "settle p s") simp
  have f1: "settled s1 = settled s @ [p]" "launched s1 = launched s"
    using settle_frame [of p s] by (simp_all add: s1)
  show ?case
  proof (cases "pending p s")
    case True
    have "fst (promiseAll promises sched s1) = Returned ()"
    proof (rule Cons.IH)
      show "set promises \<subseteq> set sched \<union> set (settled s1)"
        using Cons.prems(1) by (auto simp: f1)
      show "\<And>q. q \<in> set promises \<Longrightarrow> q < length (launched s1)"
        using Cons.prems(2) by (simp add: f1)
    qed
    then show ?thesis using True by (simp add: s1)
  next
    case False
    have "fst (promiseAll promises sched s) = Returned ()"
    proof (rule Cons.IH)
      show "set promises \<subseteq> set sched \<union> set (settled s)"
        using Cons.prems False by (auto simp: pending_def)
      show "\<And>q. q \<in> set promises \<Longrightarrow> q < length (launched s)"
        using Cons.prems(2) by simp
    qed
    then show ?thesis using False by simp
  qed
qed

subsection \<open>The try block, branch by branch\<close>

lemma runDependenciesScans_eq:
  "runDependenciesScans E ds s =
     (let n = checksPassed E (checks s) (length ds) in
      (if n < length ds then Inl (the (checkCanceled E (checks s + n)))
       else Inr (promisesFrom (length (launched s)) n),
       s\<lparr>checks := checks s + (if n < length ds then Suc n else n),
         launched := launched s @ map (dependencyTask E) (take n ds),
         trace := trace s
           @ concat (map (\<lambda>d. [CheckCanceled, Launched (dependencyTask E d)]) (take n ds))
           @ (if n < length ds then [CheckCanceled] else [])\<rparr>))"
  by (simp add: runDependenciesScans_def runDependenciesScans_loop_eq Let_def)

lemma runSourceCodeScans_eq:
  "runSourceCodeScans rs s =
     (promisesFrom (length (launched s)) (length (filter shouldRun rs)),
      s\<lparr>launched := launched s @ map (runnerTask (sharedParams s)) (filter shouldRun rs),
        trace := trace s
          @ map (\<lambda>r. Launched (runnerTask (sharedParams s) r)) (filter shouldRun rs)\<rparr>)"
  by (simp add: runSourceCodeScans_def runSourceCodeScans_loop_eq)

lemma afterStartScan_frame:
  "status (afterStartScan E s) = status s"
  "checks (afterStartScan E s) = checks s"
  "launched (afterStartScan E s) = launched s"
  "settled (afterStartScan E s) = settled s"
  "scanResults (afterStartScan E s) = scanResults s"
  "supportedScans (afterStartScan E s) = supportedScans s"
  by (simp_all add: afterStartScan_def awaitStartScan_def emit_def split: completion.splits)

lemma scanWorkspace_try_eq:
  "scanWorkspace_try E ds rs s =
     (if \<not> startScanPassed E
      then (case startScan E of Raised err \<Rightarrow> Raised err | Returned m \<Rightarrow> Unsettled
            | Unsettled \<Rightarrow> Unsettled,
            emit StartScan s)
      else (case checkCanceled E (checks s) of
              Some err \<Rightarrow> (Raised err, snd (callCheckCanceled E (afterStartScan E s)))
            | None \<Rightarrow>
               (if checksPassed E (Suc (checks s)) (length ds) < length ds
                then (Raised (the (checkCanceled E
                        (Suc (checks s) + checksPassed E (Suc (checks s)) (length ds)))),
                      snd (runDependenciesScans E ds
                        (snd (callCheckCanceled E (afterStartScan E s)))))
                else promiseAll
                       (promisesFrom (length (launched s))
                          (length ds + length (filter shouldRun rs)))
                       (schedule E) (fanOut E ds rs s))))"
proof (cases "startScanPassed E")
  case False
  then show ?thesis
    by (auto simp: scanWorkspace_try_def awaitStartScan_def startScanPassed_def
        split: completion.splits if_splits)
next
  case True
  then have a: "(if getReportAnalytics E then awaitStartScan E s else (Returned (), s))
      = (Returned (), afterStartScan E s)"
    by (auto simp: afterStartScan_def awaitStartScan_def startScanPassed_def
        split: completion.splits if_splits)
  have passed: "\<not> \<not> startScanPassed E"
    using True by simp
  show ?thesis
  proof (cases "checkCanceled E (checks s)")
    case (Some err)
    then show ?thesis
      apply (subst if_not_P [OF passed])
      apply (simp add: scanWorkspace_try_def a callCheckCanceled_def afterStartScan_frame)
      done
  next
    case None
    define s2 where "s2 = snd (callCheckCanceled E (afterStartScan E s))"
    have c: "callCheckCanceled E (afterStartScan E s) = (None, s2)"
      using None by (simp add: s2_def callCheckCanceled_def afterStartScan_frame)
    have k: "checks s2 = Suc (checks s)" "launched s2 = launched s"
      by (simp_all add: s2_def callCheckCanceled_def emit_def afterStartScan_frame)
    show ?thesis
    proof (cases "checksPassed E (Suc (checks s)) (length ds) < length ds")
      case True
      then show ?thesis using None
        apply (subst if_not_P [OF passed])
        apply (simp add: scanWorkspace_try_def a c runDependenciesScans_eq k Let_def)
        done
    next
      case stop: False
      then have n: "checksPassed E (Suc (checks s)) (length ds) = length ds"
        using checksPassed_le [of E "Suc (checks s)" "length ds"] by simp
      show ?thesis using None
        apply (subst if_not_P [OF passed])
        apply (simp add: scanWorkspace_try_def a c fanOut_def runDependenciesScans_eq
            runSourceCodeScans_eq k n Let_def promisesFrom_append)
        done
    qed
  qed
qed

subsection \<open>Events of the try block\<close>

lemma tryEvent_not_final: "tryEvent ev \<Longrightarrow> ev \<noteq> EndScan \<and> ev \<noteq> SendUsageReport"
  by (cases ev) auto

lemma tryEvents_count:
  "list_all tryEvent evs \<Longrightarrow> count_list evs EndScan = 0 \<and> count_list evs SendUsageReport = 0"
  by (induction evs) (auto dest: tryEvent_not_final)

lemma tryEvents_writes: "list_all tryEvent evs \<Longrightarrow> StatusWrite st \<in> set evs \<Longrightarrow> st = Failed"
  by (auto simp: list_all_iff)

lemma replayStatus_terminal:
  "(\<And>st. StatusWrite st \<in> set ys \<Longrightarrow> st = Failed \<or> st = Cancelled) \<Longrightarrow>
   st0 = Failed \<or> st0 = Cancelled \<Longrightarrow>
   replayStatus st0 ys = Failed \<or> replayStatus st0 ys = Cancelled"
  by (induction st0 ys rule: replayStatus.induct) auto

lemma tryStep_emit_StartScan: "tryStep s (emit StartScan s)"
  by (rule tryStepI [where evs = "[StartScan]"]) (simp_all add: emit_def)

lemma tryStep_afterStartScan: "tryStep s (afterStartScan E s)"
proof (cases "getReportAnalytics E")
  case True
  show ?thesis
    by (rule tryStepI [where evs = "[StartScan]"])
      (simp_all add: afterStartScan_def awaitStartScan_def emit_def True
        split: completion.splits)
next
  case False
  then show ?thesis by (simp add: afterStartScan_def tryStep_refl)
qed

lemma tryStep_callCheckCanceled: "tryStep s (snd (callCheckCanceled E s))"
  by (rule tryStepI [where evs = "[CheckCanceled]"]) (simp_all add: callCheckCanceled_def emit_def)

lemma tryStep_runDependenciesScans: "tryStep s (snd (runDependenciesScans E ds s))"
proof -
  define n where "n = checksPassed E (checks s) (length ds)"
  define evs where "evs =
    concat (map (\<lambda>d. [CheckCanceled, Launched (dependencyTask E d)]) (take n ds))
      @ (if n < length ds then [CheckCanceled] else [])"
  have q: "replayStatus (status s) evs = status s"
    by (rule replayStatus_quiet) (auto simp: evs_def)
  have t: "trace (snd (runDependenciesScans E ds s)) = trace s @ evs"
    by (simp add: runDependenciesScans_eq Let_def n_def [symmetric] evs_def)
  have a: "list_all tryEvent evs"
    by (auto simp: evs_def list_all_iff)
  have st: "status (snd (runDependenciesScans E ds s)) = status s"
    by (simp add: runDependenciesScans_eq Let_def)
  show ?thesis
    by (rule tryStepI [OF t a]) (simp add: st q)
qed

lemma tryStep_runSourceCodeScans: "tryStep s (snd (runSourceCodeScans rs s))"
proof -
  define evs where "evs = map (\<lambda>r. Launched (runnerTask (sharedParams s) r)) (filter shouldRun rs)"
  have q: "replayStatus (status s) evs = status s"
    by (rule replayStatus_quiet) (auto simp: evs_def)
  have t: "trace (snd (runSourceCodeScans rs s)) = trace s @ evs"
    by (simp add: runSourceCodeScans_eq evs_def)
  have a: "list_all tryEvent evs"
    by (auto simp: evs_def list_all_iff)
  have st: "status (snd (runSourceCodeScans rs s)) = status s"
    by (simp add: runSourceCodeScans_eq)
  show ?thesis
    by (rule tryStepI [OF t a]) (simp add: st q)
qed

lemma tryStep_fanOut: "tryStep s (fanOut E ds rs s)"
  unfolding fanOut_def
  by (rule tryStep_trans [OF tryStep_afterStartScan],
      rule tryStep_trans [OF tryStep_callCheckCanceled],
      rule tryStep_trans [OF tryStep_runDependenciesScans],
      rule tryStep_runSourceCodeScans)

lemma tryStep_scanWorkspace_try: "tryStep s (snd (scanWorkspace_try E ds rs s))"
proof -
  have 1: "tryStep s (emit StartScan s)" by (rule tryStep_emit_StartScan)
  have 2: "tryStep s (snd (callCheckCanceled E (afterStartScan E s)))"
    by (rule tryStep_trans [OF tryStep_afterStartScan], rule tryStep_callCheckCanceled)
  have 3: "tryStep s (snd (runDependenciesScans E ds (snd (callCheckCanceled E (afterStartScan E s)))))"
    by (rule tryStep_trans [OF 2], rule tryStep_runDependenciesScans)
  have 4: "tryStep s (snd (promiseAll ps (schedule E) (fanOut E ds rs s)))" for ps
    by (rule tryStep_trans [OF tryStep_fanOut], rule tryStep_promiseAll)
  show ?thesis
    by (simp add: scanWorkspace_try_eq 1 2 3 4 split: option.splits)
qed

subsection \<open>What the fan-out leaves\<close>

lemma fanOut_frame:
  "settled (fanOut E ds rs s) = settled s"
  "scanResults (fanOut E ds rs s) = scanResults s"
  "status (fanOut E ds rs s) = status s"
  "supportedScans (fanOut E ds rs s) = supportedScans s"
  "multiScanId (fanOut E ds rs s) = multiScanId (afterStartScan E s)"
  by (simp_all add: fanOut_def runSourceCodeScans_eq runDependenciesScans_eq Let_def
      callCheckCanceled_def emit_def afterStartScan_frame)

lemma sharedParams_cong:
  "multiScanId s' = multiScanId s \<Longrightarrow> supportedScans s' = supportedScans s \<Longrightarrow>
   sharedParams s' = sharedParams s"
  by (simp add: sharedParams_def)

lemma fanOut_launched:
  assumes "checksPassed E (Suc (checks s)) (length ds) = length ds"
  shows "launched (fanOut E ds rs s) =
     launched s @ map (dependencyTask E) ds
       @ map (runnerTask (sharedParams (fanOut E ds rs s))) (filter shouldRun rs)"
proof -
  define s2 where "s2 = snd (callCheckCanceled E (afterStartScan E s))"
  define s3 where "s3 = snd (runDependenciesScans E ds s2)"
  have k: "checks s2 = Suc (checks s)" "launched s2 = launched s"
    by (simp_all add: s2_def callCheckCanceled_def emit_def afterStartScan_frame)
  have l3: "launched s3 = launched s @ map (dependencyTask E) ds"
    using assms by (simp add: s3_def runDependenciesScans_eq Let_def k)
  have f: "fanOut E ds rs s = snd (runSourceCodeScans rs s3)"
    by (simp add: fanOut_def s3_def s2_def)
  have p: "sharedParams (fanOut E ds rs s) = sharedParams s3"
    by (rule sharedParams_cong) (simp_all add: f runSourceCodeScans_eq)
  show ?thesis
    by (simp add: p) (simp add: f runSourceCodeScans_eq l3)
qed

lemma scanWorkspace_try_Raised:
  assumes "fst (scanWorkspace_try E ds rs s) = Raised err"
  shows "settled (snd (scanWorkspace_try E ds rs s)) = settled s
    \<and> scanResults (snd (scanWorkspace_try E ds rs s)) = scanResults s
    \<and> status (snd (scanWorkspace_try E ds rs s)) = status s
    \<and> ((getReportAnalytics E \<and> startScan E = Raised err)
        \<or> (\<exists>k\<le>length ds. checkCanceled E (checks s + k) = Some err))"
proof (cases "startScanPassed E")
  case False
  with assms show ?thesis
    by (auto simp: scanWorkspace_try_eq emit_def startScanPassed_def
        split: completion.splits if_splits)
next
  case nostart: True
  show ?thesis
  proof (cases "checkCanceled E (checks s)")
    case (Some e0)
    with assms nostart have "e0 = err" by (simp add: scanWorkspace_try_eq)
    with Some have "\<exists>k\<le>length ds. checkCanceled E (checks s + k) = Some err"
      by (intro exI [of _ 0]) simp
    then show ?thesis using Some nostart
      by (simp add: scanWorkspace_try_eq callCheckCanceled_def emit_def afterStartScan_frame)
  next
    case None
    define n where "n = checksPassed E (Suc (checks s)) (length ds)"
    show ?thesis
    proof (cases "n < length ds")
      case True
      then obtain e0 where e0: "checkCanceled E (Suc (checks s) + n) = Some e0"
        using checksPassed_stop [of E "Suc (checks s)" "length ds"] by (auto simp: n_def)
      with assms nostart None True have "e0 = err"
        by (simp add: scanWorkspace_try_eq n_def [symmetric])
      with e0 True have "\<exists>k\<le>length ds. checkCanceled E (checks s + k) = Some err"
        by (intro exI [of _ "Suc n"]) simp
      then show ?thesis using None nostart True
        by (simp add: scanWorkspace_try_eq n_def [symmetric] runDependenciesScans_eq Let_def
            callCheckCanceled_def emit_def afterStartScan_frame)
    next
      case False
      with assms nostart None show ?thesis
        using promiseAll_not_Raised by (simp add: scanWorkspace_try_eq n_def [symmetric])
    qed
  qed
qed

lemma promiseAll_all_succeed:
  assumes "\<And>p. p < length (launched s) \<Longrightarrow> \<not> isl (underlying (launched s ! p))"
  shows "status (snd (promiseAll promises sched s)) = status s
    \<and> trace (snd (promiseAll promises sched s)) = trace s"
  using assms
proof (induction sched arbitrary: s)
  case Nil
  show ?case by simp
next
  case (Cons p sched)
  obtain s1 where s1: "settle p s = (Returned (), s1)"
    using settle_Returned [of p s] by (cases "settle p s") simp
  show ?case
  proof (cases "pending p s")
    case True
    then have "\<not> isl (underlying (launched s ! p))"
      using Cons.prems by (simp add: pending_def)
    then have e: "launched s1 = launched s" "status s1 = status s" "trace s1 = trace s"
      using s1 by (auto simp: settle_eq split: sum.splits)
    have "status (snd (promiseAll promises sched s1)) = status s1
      \<and> trace (snd (promiseAll promises sched s1)) = trace s1"
      by (rule Cons.IH) (simp add: e Cons.prems)
    then show ?thesis using True by (simp add: s1 e)
  next
    case False
    then show ?thesis using Cons.IH [of s] Cons.prems by simp
  qed
qed

subsection \<open>The whole call\<close>

lemma scanWorkspace_setup_fields:
  "status (scanWorkspace_setup E ds supported) = initialStatus E"
  "multiScanId (scanWorkspace_setup E ds supported) = None"
  "supportedScans (scanWorkspace_setup E ds supported) = supported"
  "scanResults (scanWorkspace_setup E ds supported) = []"
  "checks (scanWorkspace_setup E ds supported) = 0"
  "launched (scanWorkspace_setup E ds supported) = []"
  "settled (scanWorkspace_setup E ds supported) = []"
  "trace (scanWorkspace_setup E ds supported) =
     [StartStep (calculateNumberOfTasks (createJasRunner E supported) ds)]"
  by (simp_all add: scanWorkspace_setup_def newSession_def emit_def)

lemma scanWorkspace_eq:
  assumes "getSupportedScans E = Returned supported"
  shows "scanWorkspace E ds =
     (case fst (scanWorkspace_try E ds (createJasRunner E supported)
                  (scanWorkspace_setup E ds supported)) of
        Returned u \<Rightarrow>
          (Returned (), scanWorkspace_finally (snd (scanWorkspace_try E ds
             (createJasRunner E supported) (scanWorkspace_setup E ds supported))))
      | Raised err \<Rightarrow>
          (Raised err, scanWorkspace_finally (scanWorkspace_catch err
             (snd (scanWorkspace_try E ds
               (createJasRunner E supported) (scanWorkspace_setup E ds supported)))))
      | Unsettled \<Rightarrow>
          (Unsettled, snd (scanWorkspace_try E ds
             (createJasRunner E supported) (scanWorkspace_setup E ds supported))))"
  by (simp add: scanWorkspace_def assms split: prod.splits completion.splits)

lemma scanWorkspace_try_trace:
  assumes "getSupportedScans E = Returned supported"
  obtains evs where
    "trace (snd (scanWorkspace_try E ds (createJasRunner E supported)
        (scanWorkspace_setup E ds supported)))
      = StartStep (calculateNumberOfTasks (createJasRunner E supported) ds) # evs"
    "list_all tryEvent evs"
    "status (snd (scanWorkspace_try E ds (createJasRunner E supported)
        (scanWorkspace_setup E ds supported)))
      = replayStatus (initialStatus E) evs"
proof -
  have "tryStep (scanWorkspace_setup E ds supported)
     (snd (scanWorkspace_try E ds (createJasRunner E supported)
        (scanWorkspace_setup E ds supported)))"
    by (rule tryStep_scanWorkspace_try)
  then show ?thesis
    using that by (auto simp: tryStep_def scanWorkspace_setup_fields)
qed

lemma finalization_fields:
  "trace (scanWorkspace_finally s) = trace s @ [EndScan, SendUsageReport]"
  "status (scanWorkspace_finally s) = status s"
  "launched (scanWorkspace_finally s) = launched s"
  "settled (scanWorkspace_finally s) = settled s"
  "scanResults (scanWorkspace_finally s) = scanResults s"
  "multiScanId (scanWorkspace_finally s) = multiScanId s"
  "supportedScans (scanWorkspace_finally s) = supportedScans s"
  by (simp_all add: scanWorkspace_finally_def emit_def)

lemma catch_fields:
  "trace (scanWorkspace_catch err s) =
     trace s @ [StatusWrite (if err = ScanCancellationError then Cancelled else Failed)]"
  "status (scanWorkspace_catch err s) =
     (if err = ScanCancellationError then Cancelled else Failed)"
  "launched (scanWorkspace_catch err s) = launched s"
  "settled (scanWorkspace_catch err s) = settled s"
  "scanResults (scanWorkspace_catch err s) = scanResults s"
  by (simp_all add: scanWorkspace_catch_def setStatus_def emit_def)

lemma scanWorkspace_status_replay:
  "status (snd (scanWorkspace E ds))
     = replayStatus (initialStatus E) (trace (snd (scanWorkspace E ds)))
   \<and> (\<forall>st. StatusWrite st \<in> set (trace (snd (scanWorkspace E ds)))
          \<longrightarrow> st = Failed \<or> st = Cancelled)"
proof (cases "getSupportedScans E")
  case (Raised err)
  then show ?thesis by (simp add: scanWorkspace_def newSession_def)
next
  case Unsettled
  then show ?thesis by (simp add: scanWorkspace_def newSession_def)
next
  case (Returned supported)
  then obtain evs where evs:
    "trace (snd (scanWorkspace_try E ds (createJasRunner E supported)
        (scanWorkspace_setup E ds supported)))
      = StartStep (calculateNumberOfTasks (createJasRunner E supported) ds) # evs"
    "list_all tryEvent evs"
    "status (snd (scanWorkspace_try E ds (createJasRunner E supported)
        (scanWorkspace_setup E ds supported)))
      = replayStatus (initialStatus E) evs"
    by (rule scanWorkspace_try_trace)
  have w: "StatusWrite st \<in> set evs \<Longrightarrow> st = Failed" for st
    using evs(2) by (rule tryEvents_writes)
  show ?thesis
    by (cases "fst (scanWorkspace_try E ds (createJasRunner E supported)
          (scanWorkspace_setup E ds supported))")
      (auto simp: scanWorkspace_eq [OF Returned] finalization_fields catch_fields evs(1,3)
        replayStatus_append dest: w)
qed

lemma recorded_finally: "recorded t s \<Longrightarrow> recorded t (scanWorkspace_finally s)"
  by (auto simp: recorded_def finalization_fields split: sum.splits)

lemma sharedParams_finally: "sharedParams (scanWorkspace_finally s) = sharedParams s"
  by (rule sharedParams_cong) (simp_all add: finalization_fields)

lemma scanWorkspace_try_fanOut:
  assumes "startScanPassed E"
    and "\<forall>k\<le>length ds. checkCanceled E (checks s + k) = None"
  shows "scanWorkspace_try E ds rs s
      = promiseAll (promisesFrom (length (launched s)) (length ds + length (filter shouldRun rs)))
          (schedule E) (fanOut E ds rs s)"
    and "checksPassed E (Suc (checks s)) (length ds) = length ds"
proof -
  have c0: "checkCanceled E (checks s) = None"
    using assms(2) by (elim allE [of _ 0]) simp
  show n: "checksPassed E (Suc (checks s)) (length ds) = length ds"
  proof (rule checksPassed_all)
    fix k assume "k < length ds"
    then show "checkCanceled E (Suc (checks s) + k) = None"
      using assms(2) by (elim allE [of _ "Suc k"]) simp
  qed
  show "scanWorkspace_try E ds rs s
      = promiseAll (promisesFrom (length (launched s)) (length ds + length (filter shouldRun rs)))
          (schedule E) (fanOut E ds rs s)"
    by (simp add: scanWorkspace_try_eq assms(1) c0 n)
qed

text \<open>
  When the two awaited collaborators settle and the schedule names every promise of the
  fan-out, the call settles: it never stays pending for a reason of its own.
\<close>

lemma scanWorkspace_settles:
  assumes "getSupportedScans E = Returned supported"
    and "startScan E \<noteq> Unsettled"
    and "set (promisesFrom 0 (length ds + length (filter shouldRun (createJasRunner E supported))))
           \<subseteq> set (schedule E)"
  shows "fst (scanWorkspace E ds) \<noteq> Unsettled"
proof -
  define rs where "rs = createJasRunner E supported"
  define s0 where "s0 = scanWorkspace_setup E ds supported"
  define N where "N = length ds + length (filter shouldRun rs)"
  have s0: "checks s0 = 0" "launched s0 = []" "settled s0 = []"
    by (simp_all add: s0_def scanWorkspace_setup_fields)
  have "fst (scanWorkspace_try E ds rs s0) \<noteq> Unsettled"
  proof (cases "startScanPassed E")
    case False
    then show ?thesis
      using assms(2)
      by (auto simp: scanWorkspace_try_eq startScanPassed_def split: completion.splits if_splits)
  next
    case True
    show ?thesis
    proof (cases "checksPassed E (Suc (checks s0)) (length ds) < length ds")
      case stop: True
      then show ?thesis
        using True by (simp add: scanWorkspace_try_eq split: option.splits)
    next
      case False
      then have n: "checksPassed E (Suc (checks s0)) (length ds) = length ds"
        using checksPassed_le [of E "Suc (checks s0)" "length ds"] by simp
      have len: "length (launched (fanOut E ds rs s0)) = N"
        using fanOut_launched [OF n, of rs] by (simp add: s0 N_def)
      have "fst (promiseAll (promisesFrom 0 N) (schedule E) (fanOut E ds rs s0)) = Returned ()"
      proof (rule promiseAll_settles)
        show "set (promisesFrom 0 N) \<subseteq> set (schedule E) \<union> set (settled (fanOut E ds rs s0))"
          using assms(3) by (auto simp: N_def rs_def)
        show "\<And>p. p \<in> set (promisesFrom 0 N) \<Longrightarrow> p < length (launched (fanOut E ds rs s0))"
          by (simp add: set_promisesFrom len)
      qed
      then show ?thesis
        using False True by (simp add: scanWorkspace_try_eq s0 N_def split: option.splits)
    qed
  qed
  then show ?thesis
    by (cases "fst (scanWorkspace_try E ds rs s0)")
      (simp_all add: scanWorkspace_eq [OF assms(1)] rs_def [symmetric] s0_def [symmetric])
qed

section \<open>The example runs\<close>

lemmas run_defs =
  scanWorkspace_def scanWorkspace_setup_def scanWorkspace_try_def scanWorkspace_catch_def
  scanWorkspace_finally_def newSession_def awaitStartScan_def callCheckCanceled_def
  runDependenciesScans_def runSourceCodeScans_def sharedParams_def truthy_string_def
  truthy_bool_def launch_def emit_def setStatus_def dependencyTask_def runnerTask_def
  settle_def pending_def catchHandler_def dependencyCatch_def runnerCatch_def
  writeResults_def calculateNumberOfTasks_def demoEnv_def demoDescriptors_def sastRunner_def iacRunner_def
  secretsRunner_def Let_def

text \<open>
  The scenario, with the \<open>iac\<close> runner settling first and the \<open>pip\<close> scan last:
  both failures are logged, the two other tasks deliver their issues, the status ends
  \<open>Failed\<close>, and the call resolves after the finalization.
\<close>

lemma demo_run:
  "scanWorkspace demoEnv demoDescriptors =
     (Returned (),
      \<lparr>status = Failed, multiScanId = Some ''msi-1'',
       supportedScans = \<lparr>tokenValidation = Some True\<rparr>,
       scanResults = [''issue in a.json'', ''sast-issue''], checks = 3,
       launched =
         [DependencyScan ''npm'' [''a.json''] (Inr [''issue in a.json'']),
          DependencyScan ''pip'' [''b.txt'', ''c.txt''] (Inl (OtherError ''pip failed'')),
          RunnerScan ''sast''
            (Some \<lparr>msi = Some ''msi-1'', params_tokenValidation = Some True\<rparr>)
            (Inr [''sast-issue'']),
          RunnerScan ''iac''
            (Some \<lparr>msi = Some ''msi-1'', params_tokenValidation = Some True\<rparr>)
            (Inl (OtherError ''iac crashed''))],
       settled = [3, 0, 2, 1],
       trace =
         [StartStep 6, StartScan, CheckCanceled, CheckCanceled,
          Launched (DependencyScan ''npm'' [''a.json''] (Inr [''issue in a.json''])),
          CheckCanceled,
          Launched (DependencyScan ''pip'' [''b.txt'', ''c.txt'']
            (Inl (OtherError ''pip failed''))),
          Launched (RunnerScan ''sast''
            (Some \<lparr>msi = Some ''msi-1'', params_tokenValidation = Some True\<rparr>)
            (Inr [''sast-issue''])),
          Launched (RunnerScan ''iac''
            (Some \<lparr>msi = Some ''msi-1'', params_tokenValidation = Some True\<rparr>)
            (Inl (OtherError ''iac crashed''))),
          LogErrorWithAnalytics (OtherError ''iac crashed'') None, StatusWrite Failed,
          LogErrorWithAnalytics (OtherError ''pip failed'') (Some True), StatusWrite Failed,
          EndScan, SendUsageReport]\<rparr>)"
  by (simp add: run_defs)

lemma demoFanOut_eq:
  "demoFanOut =
     \<lparr>status = Completed, multiScanId = Some ''msi-1'',
      supportedScans = \<lparr>tokenValidation = Some True\<rparr>,
      scanResults = [], checks = 3,
      launched =
        [DependencyScan ''npm'' [''a.json''] (Inr [''issue in a.json'']),
         DependencyScan ''pip'' [''b.txt'', ''c.txt''] (Inl (OtherError ''pip failed'')),
         RunnerScan ''sast''
           (Some \<lparr>msi = Some ''msi-1'', params_tokenValidation = Some True\<rparr>)
           (Inr [''sast-issue'']),
         RunnerScan ''iac''
           (Some \<lparr>msi = Some ''msi-1'', params_tokenValidation = Some True\<rparr>)
           (Inl (OtherError ''iac crashed''))],
      settled = [],
      trace =
        [StartStep 6, StartScan, CheckCanceled, CheckCanceled,
         Launched (DependencyScan ''npm'' [''a.json''] (Inr [''issue in a.json''])),
         CheckCanceled,
         Launched (DependencyScan ''pip'' [''b.txt'', ''c.txt'']
           (Inl (OtherError ''pip failed''))),
         Launched (RunnerScan ''sast''
           (Some \<lparr>msi = Some ''msi-1'', params_tokenValidation = Some True\<rparr>)
           (Inr [''sast-issue''])),
         Launched (RunnerScan ''iac''
           (Some \<lparr>msi = Some ''msi-1'', params_tokenValidation = Some True\<rparr>)
           (Inl (OtherError ''iac crashed'')))]\<rparr>"
  by (simp add: demoFanOut_def fanOut_def afterStartScan_def run_defs)

text \<open>
  The \<^verbatim>\<open>try\<close> block when the check before the second dependency scan throws: the
  first scan stays launched, no runner is.
\<close>

lemma cancelledMidway_try:
  "scanWorkspace_try cancelledMidwayEnv demoDescriptors
     (createJasRunner cancelledMidwayEnv \<lparr>tokenValidation = Some True\<rparr>)
     (scanWorkspace_setup cancelledMidwayEnv demoDescriptors \<lparr>tokenValidation = Some True\<rparr>) =
     (Raised ScanCancellationError,
      \<lparr>status = Completed, multiScanId = Some ''msi-1'',
       supportedScans = \<lparr>tokenValidation = Some True\<rparr>,
       scanResults = [], checks = 3,
       launched = [DependencyScan ''npm'' [''a.json''] (Inr [''issue in a.json''])],
       settled = [],
       trace =
         [StartStep 6, StartScan, CheckCanceled, CheckCanceled,
          Launched (DependencyScan ''npm'' [''a.json''] (Inr [''issue in a.json''])),
          CheckCanceled]\<rparr>)"
  by (simp add: run_defs cancelledMidwayEnv_def)


section \<open>The claims\<close>

subsection \<open>Launching the dependency scans\<close>

text \<open>
  Claim C2, as stated, fails: \<^verbatim>\<open>runDependenciesScans\<close> does not look at the manifest
  list of an entry. For the one entry \<^verbatim>\<open>go: []\<close> it checks for cancellation and then
  calls \<^verbatim>\<open>scanPackageDependencies\<close> with the empty list: one task is launched.
\<close>

theorem runDependenciesScans_counterexample:
  "runDependenciesScans demoEnv [(''go'', [])] (newSession demoEnv)
     = (Inr [0],
        (newSession demoEnv)
          \<lparr>checks := 1,
           launched := [DependencyScan ''go'' [] (Inr [])],
           trace := [CheckCanceled, Launched (DependencyScan ''go'' [] (Inr []))]\<rparr>)"
  by (simp add: runDependenciesScans_def callCheckCanceled_def launch_def emit_def
      dependencyTask_def demoEnv_def newSession_def)

text \<open>
  Claim C2, amended: \<^verbatim>\<open>runDependenciesScans\<close> goes through the entries in iteration
  order; for each entry, whether its manifest list is empty or not, it re-checks
  cancellation and then launches exactly one dependency-scan task. A check that throws
  ends the loop with that exception: the entries before it have their task, that entry
  and the later ones have none. With \<open>n\<close> the number of checks that return before the
  first one throws, the launched tasks are those of the first \<open>n\<close> entries, and the
  trace alternates check and launch; \<open>n\<close> is the number of entries exactly when no
  check throws.
\<close>

theorem runDependenciesScans_launches_every_entry:
  "runDependenciesScans E ds s =
     (let n = checksPassed E (checks s) (length ds) in
      (if n < length ds then Inl (the (checkCanceled E (checks s + n)))
       else Inr (promisesFrom (length (launched s)) n),
       s\<lparr>checks := checks s + (if n < length ds then Suc n else n),
         launched := launched s @ map (dependencyTask E) (take n ds),
         trace := trace s
           @ concat (map (\<lambda>d. [CheckCanceled, Launched (dependencyTask E d)]) (take n ds))
           @ (if n < length ds then [CheckCanceled] else [])\<rparr>))
   \<and> (checksPassed E (checks s) (length ds) = length ds)
       = list_all (\<lambda>k. checkCanceled E k = None) (promisesFrom (checks s) (length ds))"
proof -
  have "(checksPassed E c m = m)
      = list_all (\<lambda>k. checkCanceled E k = None) (promisesFrom c m)" for c m
    by (induction m arbitrary: c) (auto simp: checksPassed_Suc)
  then show ?thesis by (simp add: runDependenciesScans_eq)
qed

theorem runDependenciesScans_launches_every_entry_witness:
  "runDependenciesScans cancelledMidwayEnv demoDescriptors
       ((newSession cancelledMidwayEnv)\<lparr>checks := 1\<rparr>)
     = (Inl ScanCancellationError,
        (newSession cancelledMidwayEnv)
          \<lparr>checks := 3,
           launched := [DependencyScan ''npm'' [''a.json''] (Inr [''issue in a.json''])],
           trace := [CheckCanceled,
             Launched (DependencyScan ''npm'' [''a.json''] (Inr [''issue in a.json''])),
             CheckCanceled]\<rparr>)"
proof -
  have n: "checksPassed cancelledMidwayEnv (Suc 0) (Suc (Suc 0)) = Suc 0"
    by (simp add: checksPassed_Suc cancelledMidwayEnv_def)
  have c: "checkCanceled cancelledMidwayEnv (Suc (Suc 0)) = Some ScanCancellationError"
    by (simp add: cancelledMidwayEnv_def)
  have d: "dependencyTask cancelledMidwayEnv (''npm'', [''a.json''])
      = DependencyScan ''npm'' [''a.json''] (Inr [''issue in a.json''])"
    by (simp add: dependencyTask_def cancelledMidwayEnv_def demoEnv_def)
  show ?thesis
    using runDependenciesScans_launches_every_entry
      [of cancelledMidwayEnv demoDescriptors "(newSession cancelledMidwayEnv)\<lparr>checks := 1\<rparr>"]
    by (simp add: n c d demoDescriptors_def newSession_def Let_def)
qed

subsection \<open>Launching the runners\<close>

text \<open>
  The presence tests are truthiness tests: an empty multi-scan id and a false
  token-validation flag count as absent, and then there is no bag at all.
\<close>

lemma sharedParams_empty_id:
  "sharedParams (s\<lparr>multiScanId := Some [], supportedScans := \<lparr>tokenValidation = Some False\<rparr>\<rparr>)
     = None"
  by (simp add: sharedParams_def truthy_string_def truthy_bool_def)

text \<open>
  Claim C8: \<^verbatim>\<open>runSourceCodeScans\<close> launches exactly the runners whose
  \<^verbatim>\<open>shouldRun\<close> holds, in order, each with the one parameter bag \<open>sharedParams s\<close>.
  The bag holds \<open>msi\<close> if and only if the session has a multi-scan id (in the sense of
  the code's test \<^verbatim>\<open>if (scanDetails.multiScanId)\<close>: set, and not the empty string),
  and then it is that id; it holds the token-validation flag if and only if the
  supported scans include token validation, and then the flag is true.
\<close>

theorem runSourceCodeScans_shared_params:
  "launched (snd (runSourceCodeScans rs s))
     = launched s @ map (runnerTask (sharedParams s)) (filter shouldRun rs)
   \<and> trace (snd (runSourceCodeScans rs s))
     = trace s @ map (\<lambda>r. Launched (runnerTask (sharedParams s) r)) (filter shouldRun rs)
   \<and> fst (runSourceCodeScans rs s)
     = promisesFrom (length (launched s)) (length (filter shouldRun rs))
   \<and> (bagMsi (sharedParams s) \<noteq> None) = truthy_string (multiScanId s)
   \<and> bagMsi (sharedParams s) = (if truthy_string (multiScanId s) then multiScanId s else None)
   \<and> (bagTokenValidation (sharedParams s) \<noteq> None)
     = truthy_bool (tokenValidation (supportedScans s))
   \<and> bagTokenValidation (sharedParams s)
     = (if truthy_bool (tokenValidation (supportedScans s)) then Some True else None)"
  by (cases "multiScanId s"; cases "tokenValidation (supportedScans s)")
    (auto simp: runSourceCodeScans_eq sharedParams_def bagMsi_def bagTokenValidation_def
      truthy_string_def truthy_bool_def)

theorem runSourceCodeScans_shared_params_witness:
  "launched (snd (runSourceCodeScans [sastRunner, secretsRunner, iacRunner]
       ((newSession demoEnv)\<lparr>multiScanId := Some ''msi-1'',
          supportedScans := \<lparr>tokenValidation = Some True\<rparr>\<rparr>)))
     = [RunnerScan ''sast''
          (Some \<lparr>msi = Some ''msi-1'', params_tokenValidation = Some True\<rparr>)
          (Inr [''sast-issue'']),
        RunnerScan ''iac''
          (Some \<lparr>msi = Some ''msi-1'', params_tokenValidation = Some True\<rparr>)
          (Inl (OtherError ''iac crashed''))]
   \<and> fst (runSourceCodeScans [sastRunner, secretsRunner, iacRunner]
       ((newSession demoEnv)\<lparr>multiScanId := Some ''msi-1'',
          supportedScans := \<lparr>tokenValidation = Some True\<rparr>\<rparr>)) = [0, 1]"
  using runSourceCodeScans_shared_params
    [of "[sastRunner, secretsRunner, iacRunner]"
      "(newSession demoEnv)\<lparr>multiScanId := Some ''msi-1'',
          supportedScans := \<lparr>tokenValidation = Some True\<rparr>\<rparr>"]
  by (simp add: sharedParams_def truthy_string_def truthy_bool_def runnerTask_def
      sastRunner_def secretsRunner_def iacRunner_def newSession_def promisesFrom_def)

subsection \<open>Finalization\<close>

text \<open>
  Claim C3, as stated, fails: the awaited \<^verbatim>\<open>getSupportedScans()\<close> stands before the
  \<^verbatim>\<open>try\<close>. When it rejects, the call rejects with that error and neither
  \<^verbatim>\<open>endScan\<close> nor \<^verbatim>\<open>sendUsageReport\<close> is called.
\<close>

theorem scanWorkspace_finalization_counterexample:
  "fst (scanWorkspace noDiscoveryEnv demoDescriptors) = Raised (OtherError ''no connection'')
   \<and> count_list (trace (snd (scanWorkspace noDiscoveryEnv demoDescriptors))) EndScan = 0
   \<and> count_list (trace (snd (scanWorkspace noDiscoveryEnv demoDescriptors))) SendUsageReport = 0"
  by (simp add: scanWorkspace_def noDiscoveryEnv_def demoEnv_def newSession_def)

text \<open>
  Claim C3, amended: on every exit path of \<^verbatim>\<open>scanWorkspace\<close> that is reached once
  the statements before the \<^verbatim>\<open>try\<close> have completed (the awaited
  \<^verbatim>\<open>getSupportedScans()\<close> has resolved and the session exists), that is, normal
  completion, task failures, cancellation and any exception raised in the \<^verbatim>\<open>try\<close>
  block, \<^verbatim>\<open>endScan\<close> has been called exactly once and \<^verbatim>\<open>sendUsageReport\<close>
  exactly once. When \<^verbatim>\<open>getSupportedScans()\<close> does not resolve, and as long as the
  call has not settled, neither has been called.
\<close>

theorem scanWorkspace_finalizes_once:
  "count_list (trace (snd (scanWorkspace E ds))) EndScan
      = (if discovered E \<and> fst (scanWorkspace E ds) \<noteq> Unsettled then 1 else 0)
   \<and> count_list (trace (snd (scanWorkspace E ds))) SendUsageReport
      = (if discovered E \<and> fst (scanWorkspace E ds) \<noteq> Unsettled then 1 else 0)"
proof (cases "getSupportedScans E")
  case (Raised err)
  then show ?thesis by (simp add: scanWorkspace_def discovered_def newSession_def)
next
  case Unsettled
  then show ?thesis by (simp add: scanWorkspace_def discovered_def newSession_def)
next
  case (Returned supported)
  then obtain evs where evs:
    "trace (snd (scanWorkspace_try E ds (createJasRunner E supported)
        (scanWorkspace_setup E ds supported)))
      = StartStep (calculateNumberOfTasks (createJasRunner E supported) ds) # evs"
    "list_all tryEvent evs"
    by (rule scanWorkspace_try_trace)
  from evs(2) have c: "count_list evs EndScan = 0" "count_list evs SendUsageReport = 0"
    by (simp_all add: tryEvents_count)
  have d: "discovered E"
    by (simp add: discovered_def Returned)
  show ?thesis
    by (cases "fst (scanWorkspace_try E ds (createJasRunner E supported)
          (scanWorkspace_setup E ds supported))")
      (simp_all add: scanWorkspace_eq [OF Returned] finalization_fields catch_fields evs(1) c d)
qed

theorem scanWorkspace_finalizes_once_witness:
  "discovered demoEnv
   \<and> fst (scanWorkspace demoEnv demoDescriptors) = Returned ()
   \<and> count_list (trace (snd (scanWorkspace demoEnv demoDescriptors))) EndScan = 1
   \<and> count_list (trace (snd (scanWorkspace demoEnv demoDescriptors))) SendUsageReport = 1"
proof -
  have h: "discovered demoEnv"
    by (simp add: discovered_def demoEnv_def)
  have r: "fst (scanWorkspace demoEnv demoDescriptors) = Returned ()"
    by (simp add: demo_run)
  show ?thesis
    using scanWorkspace_finalizes_once [of demoEnv demoDescriptors] h r by simp
qed

text \<open>
  Claim C9, as stated, fails for the same reason: when \<^verbatim>\<open>getSupportedScans()\<close>
  rejects (here with a cancellation), the promise of \<^verbatim>\<open>scanWorkspace\<close> settles,
  rejected, and no finalization has been performed.
\<close>

theorem scanWorkspace_settles_counterexample:
  "fst (scanWorkspace cancelledDiscoveryEnv []) = Raised ScanCancellationError
   \<and> EndScan \<notin> set (trace (snd (scanWorkspace cancelledDiscoveryEnv [])))
   \<and> SendUsageReport \<notin> set (trace (snd (scanWorkspace cancelledDiscoveryEnv [])))"
  by (simp add: scanWorkspace_def cancelledDiscoveryEnv_def demoEnv_def newSession_def)

text \<open>
  Claim C9, amended: the promise returned by \<^verbatim>\<open>scanWorkspace\<close> is a void promise
  that, once the statements before the \<^verbatim>\<open>try\<close> have completed, settles (resolves
  or rejects) only after the finalization. At any moment one of three holds: the promise
  is pending; or \<^verbatim>\<open>getSupportedScans()\<close> rejected and the promise rejected with that
  error, nothing else having been done; or \<^verbatim>\<open>endScan\<close> and then
  \<^verbatim>\<open>sendUsageReport\<close> are the last two calls made, and neither was made earlier. In
  particular the promise resolves only after the finalization.
\<close>

theorem scanWorkspace_settles_after_finalization:
  "fst (scanWorkspace E ds) = Unsettled
   \<or> (\<exists>err. getSupportedScans E = Raised err
         \<and> scanWorkspace E ds = (Raised err, newSession E))
   \<or> (\<exists>evs. trace (snd (scanWorkspace E ds)) = evs @ [EndScan, SendUsageReport]
         \<and> EndScan \<notin> set evs \<and> SendUsageReport \<notin> set evs)"
proof (cases "getSupportedScans E")
  case (Raised err)
  then show ?thesis by (simp add: scanWorkspace_def)
next
  case Unsettled
  then show ?thesis by (simp add: scanWorkspace_def)
next
  case (Returned supported)
  then obtain evs where evs:
    "trace (snd (scanWorkspace_try E ds (createJasRunner E supported)
        (scanWorkspace_setup E ds supported)))
      = StartStep (calculateNumberOfTasks (createJasRunner E supported) ds) # evs"
    "list_all tryEvent evs"
    by (rule scanWorkspace_try_trace)
  from evs(2) have c: "EndScan \<notin> set evs" "SendUsageReport \<notin> set evs"
    using tryEvents_count [of evs] by (simp_all add: count_list_0_iff)
  show ?thesis
    by (cases "fst (scanWorkspace_try E ds (createJasRunner E supported)
          (scanWorkspace_setup E ds supported))")
      (simp_all add: scanWorkspace_eq [OF Returned] finalization_fields catch_fields evs(1) c)
qed

theorem scanWorkspace_settles_after_finalization_witness:
  "fst (scanWorkspace demoEnv demoDescriptors) = Returned ()
   \<and> (\<exists>evs. trace (snd (scanWorkspace demoEnv demoDescriptors)) = evs @ [EndScan, SendUsageReport]
        \<and> EndScan \<notin> set evs \<and> SendUsageReport \<notin> set evs)"
proof -
  have r: "fst (scanWorkspace demoEnv demoDescriptors) = Returned ()"
    by (simp add: demo_run)
  have g: "getSupportedScans demoEnv = Returned \<lparr>tokenValidation = Some True\<rparr>"
    by (simp add: demoEnv_def)
  show ?thesis
    using scanWorkspace_settles_after_finalization [of demoEnv demoDescriptors] r g by simp
qed

subsection \<open>Exceptions at the level of the orchestrator\<close>



text \<open>
  Claim C6: when \<^verbatim>\<open>getSupportedScans()\<close> has resolved and \<^verbatim>\<open>startScan()\<close>, if
  called, has resolved, so that the cancellation check before the fan-out is reached,
  and that check (the first call of \<^verbatim>\<open>checkCanceled\<close>) throws the cancellation, then
  no task at all is launched, the status becomes \<open>Cancelled\<close>, and the call rejects
  with the cancellation.
\<close>

theorem scanWorkspace_cancelled_before_fanOut:
  assumes "getSupportedScans E = Returned supported"
    and "startScanPassed E"
    and "checkCanceled E 0 = Some ScanCancellationError"
  shows "fst (scanWorkspace E ds) = Raised ScanCancellationError
    \<and> launched (snd (scanWorkspace E ds)) = []
    \<and> status (snd (scanWorkspace E ds)) = Cancelled
    \<and> trace (snd (scanWorkspace E ds))
        = StartStep (calculateNumberOfTasks (createJasRunner E supported) ds)
            # (if getReportAnalytics E then [StartScan] else [])
            @ [CheckCanceled, StatusWrite Cancelled, EndScan, SendUsageReport]"
proof -
  have t: "scanWorkspace_try E ds (createJasRunner E supported)
        (scanWorkspace_setup E ds supported)
      = (Raised ScanCancellationError,
         snd (callCheckCanceled E (afterStartScan E (scanWorkspace_setup E ds supported))))"
    by (simp add: scanWorkspace_try_eq assms(2) scanWorkspace_setup_fields assms(3))
  show ?thesis
    using assms(2)
    by (auto simp: scanWorkspace_eq [OF assms(1)] t finalization_fields catch_fields
        callCheckCanceled_def emit_def afterStartScan_def awaitStartScan_def
        scanWorkspace_setup_fields startScanPassed_def split: completion.splits if_splits)
qed

theorem scanWorkspace_cancelled_before_fanOut_witness:
  "checkCanceled cancelledEnv 0 = Some ScanCancellationError
   \<and> fst (scanWorkspace cancelledEnv demoDescriptors) = Raised ScanCancellationError
   \<and> launched (snd (scanWorkspace cancelledEnv demoDescriptors)) = []
   \<and> status (snd (scanWorkspace cancelledEnv demoDescriptors)) = Cancelled
   \<and> trace (snd (scanWorkspace cancelledEnv demoDescriptors)) =
       [StartStep 6, StartScan, CheckCanceled, StatusWrite Cancelled, EndScan, SendUsageReport]"
proof -
  have h1: "getSupportedScans cancelledEnv = Returned \<lparr>tokenValidation = Some True\<rparr>"
    by (simp add: cancelledEnv_def demoEnv_def)
  have h2: "startScanPassed cancelledEnv"
    by (simp add: startScanPassed_def cancelledEnv_def demoEnv_def)
  have h3: "checkCanceled cancelledEnv 0 = Some ScanCancellationError"
    by (simp add: cancelledEnv_def)
  have n: "calculateNumberOfTasks (createJasRunner cancelledEnv \<lparr>tokenValidation = Some True\<rparr>)
      demoDescriptors = 6"
    by (simp add: calculateNumberOfTasks_def cancelledEnv_def demoEnv_def demoDescriptors_def)
  have a: "getReportAnalytics cancelledEnv"
    by (simp add: cancelledEnv_def demoEnv_def)
  show ?thesis
    using scanWorkspace_cancelled_before_fanOut [OF h1 h2 h3, of demoDescriptors] h3
    by (simp add: n a)
qed

subsection \<open>Failures of single tasks\<close>

text \<open>
  Claim C10: the two catch handlers log the error (\<^verbatim>\<open>runDependenciesScans\<close> with the
  third argument \<^verbatim>\<open>true\<close>, \<^verbatim>\<open>runSourceCodeScans\<close> without it), set the status to
  \<open>Failed\<close> and return. So the promise that the two functions put into their arrays
  resolves however the underlying scan ends: when the scan rejects, after the log entry
  and the status write of its handler; when it resolves, with the issues of the scan
  and nothing else written. So \<^verbatim>\<open>Promise.all\<close> never rejects; and an exception of the
  \<^verbatim>\<open>try\<close> block is one that \<^verbatim>\<open>startScan()\<close> or a call of \<^verbatim>\<open>checkCanceled\<close>
  raised, before any promise was awaited or settled.
\<close>

theorem wrapped_promises_never_reject:
  "dependencyCatch e s
     = (Returned (),
        s\<lparr>status := Failed,
          trace := trace s @ [LogErrorWithAnalytics e (Some True), StatusWrite Failed]\<rparr>)
   \<and> runnerCatch e s
     = (Returned (),
        s\<lparr>status := Failed,
          trace := trace s @ [LogErrorWithAnalytics e None, StatusWrite Failed]\<rparr>)
   \<and> taskFlag (dependencyTask E d) = Some True
   \<and> taskFlag (runnerTask params runner) = None
   \<and> settle p s
     = (Returned (),
        (case underlying (launched s ! p) of
           Inl err \<Rightarrow>
             s\<lparr>status := Failed, settled := settled s @ [p],
               trace := trace s
                 @ [LogErrorWithAnalytics err (taskFlag (launched s ! p)), StatusWrite Failed]\<rparr>
         | Inr issues \<Rightarrow>
             s\<lparr>scanResults := scanResults s @ issues, settled := settled s @ [p]\<rparr>))
   \<and> fst (promiseAll promises sched s') \<noteq> Raised err'
   \<and> (fst (scanWorkspace_try E ds rs s0) = Raised err'' \<longrightarrow>
        settled (snd (scanWorkspace_try E ds rs s0)) = settled s0
        \<and> ((getReportAnalytics E \<and> startScan E = Raised err'')
            \<or> (\<exists>k\<le>length ds. checkCanceled E (checks s0 + k) = Some err'')))"
  using scanWorkspace_try_Raised [of E ds rs s0 err''] settle_eq [of p s]
  by (simp add: promiseAll_not_Raised dependencyCatch_def runnerCatch_def setStatus_def emit_def
      dependencyTask_def runnerTask_def)

theorem wrapped_promises_never_reject_witness:
  "underlying (launched demoFanOut ! 1) = Inl (OtherError ''pip failed'')
   \<and> status demoFanOut = Completed
   \<and> settle 1 demoFanOut
     = (Returned (),
        demoFanOut\<lparr>status := Failed, settled := [1],
          trace := trace demoFanOut
            @ [LogErrorWithAnalytics (OtherError ''pip failed'') (Some True),
               StatusWrite Failed]\<rparr>)
   \<and> runnerCatch (OtherError ''iac crashed'') demoFanOut
     = (Returned (),
        demoFanOut\<lparr>status := Failed,
          trace := trace demoFanOut
            @ [LogErrorWithAnalytics (OtherError ''iac crashed'') None, StatusWrite Failed]\<rparr>)
   \<and> fst (promiseAll [0, 1, 2, 3] (schedule demoEnv) demoFanOut)
       \<noteq> Raised (OtherError ''pip failed'')
   \<and> fst (promiseAll [0, 1, 2, 3] (schedule demoEnv) demoFanOut) = Returned ()
   \<and> status (snd (promiseAll [0, 1, 2, 3] (schedule demoEnv) demoFanOut)) = Failed
   \<and> fst (scanWorkspace_try cancelledMidwayEnv demoDescriptors
        (createJasRunner cancelledMidwayEnv \<lparr>tokenValidation = Some True\<rparr>)
        (scanWorkspace_setup cancelledMidwayEnv demoDescriptors \<lparr>tokenValidation = Some True\<rparr>))
       = Raised ScanCancellationError
   \<and> settled (snd (scanWorkspace_try cancelledMidwayEnv demoDescriptors
        (createJasRunner cancelledMidwayEnv \<lparr>tokenValidation = Some True\<rparr>)
        (scanWorkspace_setup cancelledMidwayEnv demoDescriptors \<lparr>tokenValidation = Some True\<rparr>)))
       = []
   \<and> checkCanceled cancelledMidwayEnv 2 = Some ScanCancellationError"
proof -
  have u: "underlying (launched demoFanOut ! 1) = Inl (OtherError ''pip failed'')"
    "taskFlag (launched demoFanOut ! 1) = Some True"
    "settled demoFanOut = []" "status demoFanOut = Completed"
    by (simp_all add: demoFanOut_eq)
  have j: "fst (promiseAll [0, 1, 2, 3] (schedule demoEnv) demoFanOut) = Returned ()"
    "status (snd (promiseAll [0, 1, 2, 3] (schedule demoEnv) demoFanOut)) = Failed"
    by (simp_all add: demoFanOut_eq run_defs)
  have r: "fst (scanWorkspace_try cancelledMidwayEnv demoDescriptors
        (createJasRunner cancelledMidwayEnv \<lparr>tokenValidation = Some True\<rparr>)
        (scanWorkspace_setup cancelledMidwayEnv demoDescriptors \<lparr>tokenValidation = Some True\<rparr>))
      = Raised ScanCancellationError"
    by (simp add: cancelledMidway_try)
  have c: "checkCanceled cancelledMidwayEnv 2 = Some ScanCancellationError"
    by (simp add: cancelledMidwayEnv_def)
  have s: "settled (scanWorkspace_setup cancelledMidwayEnv demoDescriptors
      \<lparr>tokenValidation = Some True\<rparr>) = []"
    by (simp add: scanWorkspace_setup_fields)
  show ?thesis
    using wrapped_promises_never_reject
      [where e = "OtherError ''iac crashed''" and s = demoFanOut and p = 1
        and promises = "[0, 1, 2, 3]" and sched = "schedule demoEnv" and s' = demoFanOut
        and err' = "OtherError ''pip failed''" and E = cancelledMidwayEnv
        and ds = demoDescriptors
        and rs = "createJasRunner cancelledMidwayEnv \<lparr>tokenValidation = Some True\<rparr>"
        and ?s0.0 = "scanWorkspace_setup cancelledMidwayEnv demoDescriptors
          \<lparr>tokenValidation = Some True\<rparr>"
        and err'' = ScanCancellationError]
      u j r c s
    by simp
qed

text \<open>
  Claim C4: when the fan-out is reached and completed (\<^verbatim>\<open>getSupportedScans()\<close> and
  \<^verbatim>\<open>startScan()\<close> resolve, no cancellation check throws) and the host settles every
  launched scan, then \<^verbatim>\<open>scanWorkspace\<close> resolves, whichever tasks failed: no failure
  reaches the caller. Every entry and every runner that should run has its task; each
  task settled exactly once; each failed task has its log entry and has set the status
  to \<open>Failed\<close>; each successful task has its issues in the results. The final status is
  \<open>Failed\<close> if some task failed and the initial one otherwise.
\<close>

theorem task_failures_are_isolated:
  assumes "getSupportedScans E = Returned supported"
    and "startScanPassed E"
    and "\<forall>k\<le>length ds. checkCanceled E k = None"
    and "set (promisesFrom 0 (length ds + length (filter shouldRun (createJasRunner E supported))))
           \<subseteq> set (schedule E)"
  shows "fst (scanWorkspace E ds) = Returned ()
    \<and> launched (snd (scanWorkspace E ds))
        = map (dependencyTask E) ds
          @ map (runnerTask (sharedParams (snd (scanWorkspace E ds))))
              (filter shouldRun (createJasRunner E supported))
    \<and> distinct (settled (snd (scanWorkspace E ds)))
    \<and> set (settled (snd (scanWorkspace E ds))) = {..<length (launched (snd (scanWorkspace E ds)))}
    \<and> list_all (\<lambda>t. recorded t (snd (scanWorkspace E ds))) (launched (snd (scanWorkspace E ds)))
    \<and> status (snd (scanWorkspace E ds))
        = (if list_ex (\<lambda>t. isl (underlying t)) (launched (snd (scanWorkspace E ds)))
           then Failed else initialStatus E)"
proof -
  define rs where "rs = createJasRunner E supported"
  define s0 where "s0 = scanWorkspace_setup E ds supported"
  define N where "N = length ds + length (filter shouldRun rs)"
  define F where "F = fanOut E ds rs s0"
  define P where "P = promiseAll (promisesFrom 0 N) (schedule E) F"
  have s0: "checks s0 = 0" "launched s0 = []" "settled s0 = []" "status s0 = initialStatus E"
    by (simp_all add: s0_def scanWorkspace_setup_fields)
  have nc: "\<forall>k\<le>length ds. checkCanceled E (checks s0 + k) = None"
    using assms(3) by (simp add: s0)
  have tryP: "scanWorkspace_try E ds rs s0 = P"
    using scanWorkspace_try_fanOut(1) [OF assms(2) nc, of rs]
    by (simp add: P_def F_def N_def s0)
  have n: "checksPassed E (Suc (checks s0)) (length ds) = length ds"
    using assms(2) nc by (rule scanWorkspace_try_fanOut(2))
  have lF: "launched F = map (dependencyTask E) ds
      @ map (runnerTask (sharedParams F)) (filter shouldRun rs)"
    using fanOut_launched [OF n, of rs] by (simp add: F_def s0)
  have lenF: "length (launched F) = N"
    by (simp add: lF N_def)
  have fF: "settled F = []" "status F = initialStatus E"
    by (simp_all add: F_def fanOut_frame s0)
  have aF: "allRecorded F"
    by (simp add: allRecorded_def fF)
  have ret: "fst P = Returned ()"
    unfolding P_def
  proof (rule promiseAll_settles)
    show "set (promisesFrom 0 N) \<subseteq> set (schedule E) \<union> set (settled F)"
      using assms(4) by (auto simp: N_def rs_def)
    show "\<And>p. p \<in> set (promisesFrom 0 N) \<Longrightarrow> p < length (launched F)"
      by (simp add: set_promisesFrom lenF)
  qed
  have frame: "launched (snd P) = launched F" "multiScanId (snd P) = multiScanId F"
    "supportedScans (snd P) = supportedScans F"
    using promiseAll_frame [of "promisesFrom 0 N" "schedule E" F] by (simp_all add: P_def)
  have sp: "sharedParams (snd P) = sharedParams F"
    by (rule sharedParams_cong) (simp_all add: frame)
  have aP: "allRecorded (snd P)"
    unfolding P_def using aF by (rule allRecorded_promiseAll)
  have sub: "set (promisesFrom 0 N) \<subseteq> set (settled (snd P))"
    using ret promiseAll_Returned_settled [of "promisesFrom 0 N" "schedule E" F]
    by (simp add: P_def)
  have bound: "set (settled (snd P)) \<subseteq> {..<N}"
    using aP by (auto simp: allRecorded_def list_all_iff frame lenF)
  have all: "set (settled (snd P)) = {..<N}"
    using sub bound by (auto simp: set_promisesFrom)
  have rec: "recorded t (snd P)" if "t \<in> set (launched (snd P))" for t
  proof -
    from that obtain p where p: "p < N" "t = launched (snd P) ! p"
      by (auto simp: in_set_conv_nth frame lenF)
    then have "p \<in> set (settled (snd P))" by (simp add: all)
    then show ?thesis using aP p by (auto simp: allRecorded_def list_all_iff)
  qed
  have st: "status (snd P)
      = (if list_ex (\<lambda>t. isl (underlying t)) (launched (snd P)) then Failed else initialStatus E)"
  proof (cases "list_ex (\<lambda>t. isl (underlying t)) (launched (snd P))")
    case True
    then obtain t where t: "t \<in> set (launched (snd P))" "isl (underlying t)"
      by (auto simp: list_ex_iff)
    from rec [OF t(1)] t(2) have "status (snd P) = Failed"
      by (auto simp: recorded_def isl_def)
    with True show ?thesis by simp
  next
    case False
    then have "\<And>p. p < length (launched F) \<Longrightarrow> \<not> isl (underlying (launched F ! p))"
      by (auto simp: list_ex_iff frame)
    then have "status (snd P) = status F"
      unfolding P_def using promiseAll_all_succeed by blast
    with False show ?thesis by (simp add: fF)
  qed
  have whole: "scanWorkspace E ds = (Returned (), scanWorkspace_finally (snd P))"
    using ret tryP by (simp add: scanWorkspace_eq [OF assms(1)] rs_def [symmetric] s0_def [symmetric])
  define R where "R = scanWorkspace_finally (snd P)"
  have lR: "launched R = launched F" "settled R = settled (snd P)" "status R = status (snd P)"
    by (simp_all add: R_def finalization_fields frame)
  have spR: "sharedParams R = sharedParams F"
    by (simp add: R_def sharedParams_finally sp)
  have 1: "launched R = map (dependencyTask E) ds
      @ map (runnerTask (sharedParams R)) (filter shouldRun (createJasRunner E supported))"
    by (simp add: lR lF spR rs_def)
  have 2: "distinct (settled R)"
    using aP by (simp add: lR allRecorded_def)
  have 3: "set (settled R) = {..<length (launched R)}"
    by (simp add: lR all lenF)
  have 4: "list_all (\<lambda>t. recorded t R) (launched R)"
    unfolding list_all_iff R_def
  proof
    fix t assume "t \<in> set (launched (scanWorkspace_finally (snd P)))"
    then have "t \<in> set (launched (snd P))" by (simp add: finalization_fields)
    then show "recorded t (scanWorkspace_finally (snd P))"
      by (intro recorded_finally rec)
  qed
  have 5: "status R
      = (if list_ex (\<lambda>t. isl (underlying t)) (launched R) then Failed else initialStatus E)"
    using st by (simp add: lR frame)
  show ?thesis
    unfolding whole fst_conv snd_conv R_def [symmetric]
    using 1 2 3 4 5 by blast
qed

theorem task_failures_are_isolated_witness:
  "fst (scanWorkspace demoEnv demoDescriptors) = Returned ()
   \<and> launched (snd (scanWorkspace demoEnv demoDescriptors))
       = map (dependencyTask demoEnv) demoDescriptors
         @ map (runnerTask (sharedParams (snd (scanWorkspace demoEnv demoDescriptors))))
             (filter shouldRun (createJasRunner demoEnv \<lparr>tokenValidation = Some True\<rparr>))
   \<and> distinct (settled (snd (scanWorkspace demoEnv demoDescriptors)))
   \<and> set (settled (snd (scanWorkspace demoEnv demoDescriptors)))
       = {..<length (launched (snd (scanWorkspace demoEnv demoDescriptors)))}
   \<and> list_all (\<lambda>t. recorded t (snd (scanWorkspace demoEnv demoDescriptors)))
       (launched (snd (scanWorkspace demoEnv demoDescriptors)))
   \<and> status (snd (scanWorkspace demoEnv demoDescriptors)) = Failed
   \<and> scanResults (snd (scanWorkspace demoEnv demoDescriptors))
       = [''issue in a.json'', ''sast-issue'']"
proof -
  have h1: "getSupportedScans demoEnv = Returned \<lparr>tokenValidation = Some True\<rparr>"
    by (simp add: demoEnv_def)
  have h2: "startScanPassed demoEnv"
    by (simp add: startScanPassed_def demoEnv_def)
  have h3: "\<forall>k\<le>length demoDescriptors. checkCanceled demoEnv k = None"
    by (simp add: demoEnv_def)
  have h4: "set (promisesFrom 0 (length demoDescriptors
      + length (filter shouldRun (createJasRunner demoEnv \<lparr>tokenValidation = Some True\<rparr>))))
      \<subseteq> set (schedule demoEnv)"
    by (simp add: demoEnv_def demoDescriptors_def sastRunner_def iacRunner_def secretsRunner_def)
  have e: "status (snd (scanWorkspace demoEnv demoDescriptors)) = Failed"
    "scanResults (snd (scanWorkspace demoEnv demoDescriptors))
       = [''issue in a.json'', ''sast-issue'']"
    by (simp_all add: demo_run)
  show ?thesis
    using task_failures_are_isolated [OF h1 h2 h3 h4] e by blast
qed

subsection \<open>The status never returns to success\<close>

text \<open>
  Claim C7: at every moment of a \<^verbatim>\<open>scanWorkspace\<close> invocation the status is what
  the status writes made so far have left (\<open>replayStatus\<close> of the trace). Once it is
  \<open>Failed\<close> or \<open>Cancelled\<close> (after the events \<open>xs\<close>), it is \<open>Failed\<close> or
  \<open>Cancelled\<close> after any further events \<open>ys\<close> of the invocation, including at its
  end; and a task that completes successfully writes neither the status nor anything else
  into the trace.
\<close>

theorem status_monotonic:
  assumes "trace (snd (scanWorkspace E ds)) = xs @ ys"
    and "replayStatus (initialStatus E) xs = Failed \<or> replayStatus (initialStatus E) xs = Cancelled"
  shows "(replayStatus (initialStatus E) (xs @ ys) = Failed
        \<or> replayStatus (initialStatus E) (xs @ ys) = Cancelled)
    \<and> status (snd (scanWorkspace E ds)) = replayStatus (initialStatus E) (xs @ ys)
    \<and> (underlying (launched s0 ! p) = Inr issues \<longrightarrow>
          status (snd (settle p s0)) = status s0 \<and> trace (snd (settle p s0)) = trace s0)"
proof -
  have "StatusWrite st \<in> set ys \<Longrightarrow> st = Failed \<or> st = Cancelled" for st
    using scanWorkspace_status_replay [of E ds] assms(1) by simp
  then have "replayStatus (replayStatus (initialStatus E) xs) ys = Failed
      \<or> replayStatus (replayStatus (initialStatus E) xs) ys = Cancelled"
    using assms(2) by (rule replayStatus_terminal)
  moreover have "status (snd (scanWorkspace E ds)) = replayStatus (initialStatus E) (xs @ ys)"
    using scanWorkspace_status_replay [of E ds] assms(1) by simp
  ultimately show ?thesis
    by (simp add: replayStatus_append settle_eq)
qed

theorem status_monotonic_witness:
  "replayStatus (initialStatus demoEnv)
       (take 11 (trace (snd (scanWorkspace demoEnv demoDescriptors)))) = Failed
   \<and> status (snd (scanWorkspace demoEnv demoDescriptors)) = Failed
   \<and> underlying (launched (snd (scanWorkspace demoEnv demoDescriptors)) ! 2)
       = Inr [''sast-issue'']
   \<and> status (snd (settle 2 (snd (scanWorkspace demoEnv demoDescriptors)))) = Failed
   \<and> trace (snd (settle 2 (snd (scanWorkspace demoEnv demoDescriptors))))
       = trace (snd (scanWorkspace demoEnv demoDescriptors))"
proof -
  have h1: "trace (snd (scanWorkspace demoEnv demoDescriptors))
      = take 11 (trace (snd (scanWorkspace demoEnv demoDescriptors)))
        @ drop 11 (trace (snd (scanWorkspace demoEnv demoDescriptors)))"
    by simp
  have x: "replayStatus (initialStatus demoEnv)
      (take 11 (trace (snd (scanWorkspace demoEnv demoDescriptors)))) = Failed"
    by (simp add: demo_run)
  then have h2: "replayStatus (initialStatus demoEnv)
        (take 11 (trace (snd (scanWorkspace demoEnv demoDescriptors)))) = Failed
      \<or> replayStatus (initialStatus demoEnv)
        (take 11 (trace (snd (scanWorkspace demoEnv demoDescriptors)))) = Cancelled"
    by simp
  have u: "underlying (launched (snd (scanWorkspace demoEnv demoDescriptors)) ! 2)
      = Inr [''sast-issue'']"
    by (simp add: demo_run)
  have f: "status (snd (scanWorkspace demoEnv demoDescriptors)) = Failed"
    by (simp add: demo_run)
  show ?thesis
    using status_monotonic [OF h1 h2, of "snd (scanWorkspace demoEnv demoDescriptors)" 2
        "[''sast-issue'']"] x u f
    by simp
qed

end
